theory Spec2Isabelle
  imports Complex_Main "HOL-Library.Word" "HOL-Library.Signed_Division"
begin

unbundle bit_operations_syntax

section \<open>C++ values: errors, int arithmetic, casts from qreal\<close>

text \<open>
  Undefined behaviour of the C++ source (dereferencing a null pointer, an out-of-range
  \<open>QList::at\<close>, signed overflow, integer division by zero, a cast of an out-of-range
  floating-point value to int, a wrong downcast) is a value of type \<open>error\<close>; an
  operation that can run into one returns \<open>error + 'a\<close>.
\<close>

datatype error =
    NullDereference
  | IndexOutOfRange
  | IntOverflow
  | DivisionByZero
  | UndefinedCast
  | BadDowncast

definition ebind :: "error + 'a \<Rightarrow> ('a \<Rightarrow> error + 'b) \<Rightarrow> error + 'b" where
  "ebind m f = (case m of Inl e \<Rightarrow> Inl e | Inr v \<Rightarrow> f v)"

text \<open>\<open>int\<close> is a 32-bit signed integer.\<close>

definition INT_MIN :: int where
  "INT_MIN = - 2147483648"

definition INT_MAX :: int where
  "INT_MAX = 2147483647"

definition int_ok :: "int \<Rightarrow> bool" where
  "int_ok v \<longleftrightarrow> INT_MIN \<le> v \<and> v \<le> INT_MAX"

definition ck :: "int \<Rightarrow> error + int" where
  "ck v = (if int_ok v then Inr v else Inl IntOverflow)"

definition iadd :: "int \<Rightarrow> int \<Rightarrow> error + int" where
  "iadd a b = ck (a + b)"

definition isub :: "int \<Rightarrow> int \<Rightarrow> error + int" where
  "isub a b = ck (a - b)"

definition imul :: "int \<Rightarrow> int \<Rightarrow> error + int" where
  "imul a b = ck (a * b)"

text \<open>Integer division truncates towards zero; \<open>INT_MIN / -1\<close> overflows.\<close>

definition idiv :: "int \<Rightarrow> int \<Rightarrow> error + int" where
  "idiv a b = (if b = 0 then Inl DivisionByZero else ck (a sdiv b))"

text \<open>
  \<open>qreal\<close> is a double. Every finite double is a real number, and the conversion of an
  \<open>int\<close> to a double is exact, so \<open>qreal\<close> values are modelled as reals. The cast
  \<open>(int) r\<close> discards the fractional part and is undefined when the result does not fit.
  A floating-point operation that rounds (a division, a sum) is the exact result passed
  through a rounding function \<open>rnd\<close>, which the operations below take as a parameter.
\<close>

type_synonym qreal = real

definition trunc_toward_zero :: "real \<Rightarrow> int" where
  "trunc_toward_zero r = (if 0 \<le> r then \<lfloor>r\<rfloor> else \<lceil>r\<rceil>)"

definition int_cast :: "qreal \<Rightarrow> error + int" where
  "int_cast r = (if int_ok (trunc_toward_zero r) then Inr (trunc_toward_zero r)
                 else Inl UndefinedCast)"

text \<open>
  \<open>(int) (a / b)\<close> for a qreal \<open>a\<close> and an int \<open>b\<close>: a floating-point division; with
  \<open>b = 0\<close> the quotient is an infinity or a NaN, whose cast is undefined.
\<close>

definition cast_quot :: "(real \<Rightarrow> real) \<Rightarrow> qreal \<Rightarrow> int \<Rightarrow> error + int" where
  "cast_quot rnd a b = (if b = 0 then Inl UndefinedCast else int_cast (rnd (a / of_int b)))"

text \<open>\<open>QList::at(i)\<close> asserts that the index is in range.\<close>

definition QList_at :: "'a list \<Rightarrow> int \<Rightarrow> error + 'a" where
  "QList_at xs i = (if 0 \<le> i \<and> i < int (length xs) then Inr (xs ! nat i) else Inl IndexOutOfRange)"

section \<open>The map data traversed by the scene\<close>

record TileLayer =
  layerX :: int
  layerY :: int

record MapObject =
  objectX :: qreal
  objectY :: qreal

record ObjectGroup =
  objects :: "MapObject list"

text \<open>
  A \<open>Layer*\<close> of the map points to a tile layer, an object group or a layer of some other
  class; the two \<open>dynamic_cast\<close>s of the source tell them apart.
\<close>

datatype Layer =
    TileLayerOf TileLayer
  | ObjectGroupOf ObjectGroup
  | OtherLayer

definition dynamic_cast_TileLayer :: "Layer \<Rightarrow> TileLayer option" where
  "dynamic_cast_TileLayer layer = (case layer of TileLayerOf t \<Rightarrow> Some t | _ \<Rightarrow> None)"

definition dynamic_cast_ObjectGroup :: "Layer \<Rightarrow> ObjectGroup option" where
  "dynamic_cast_ObjectGroup layer = (case layer of ObjectGroupOf og \<Rightarrow> Some og | _ \<Rightarrow> None)"

record Map =
  mapWidth :: int
  mapHeight :: int
  tileWidth :: int
  tileHeight :: int
  layers :: "Layer list"

record MapDocument =
  docMap :: Map
  currentLayer :: int

text \<open>
  The scene holds a pointer to a document that others own and change. A pointer is an
  address, and every operation reads the documents as they are when it is called.
\<close>

type_synonym documents = "nat \<Rightarrow> MapDocument"

record QRectF =
  rectX :: qreal
  rectY :: qreal
  rectW :: qreal
  rectH :: qreal

record QRect =
  irectX :: int
  irectY :: int
  irectW :: int
  irectH :: int

definition QRectF_null :: QRectF where
  "QRectF_null = \<lparr>rectX = 0, rectY = 0, rectW = 0, rectH = 0\<rparr>"

text \<open>
  A \<open>QRectF\<close> stores its left and top edge, its width and its height; \<open>right()\<close> and
  \<open>bottom()\<close> are the floating-point sums.
\<close>

definition rectLeft :: "QRectF \<Rightarrow> qreal" where
  "rectLeft r = rectX r"

definition rectTop :: "QRectF \<Rightarrow> qreal" where
  "rectTop r = rectY r"

definition rectRight :: "(real \<Rightarrow> real) \<Rightarrow> QRectF \<Rightarrow> qreal" where
  "rectRight rnd r = rnd (rectX r + rectW r)"

definition rectBottom :: "(real \<Rightarrow> real) \<Rightarrow> QRectF \<Rightarrow> qreal" where
  "rectBottom rnd r = rnd (rectY r + rectH r)"

section \<open>MapScene\<close>

datatype GlobalColor = DarkGray | Black | NoColor

datatype PaintCall = BeginPaint | EndPaint

text \<open>
  The brush item is one object, created by the constructor and shared between the
  member \<open>mBrush\<close> and the scene's item list.
\<close>

record BrushItem =
  brushZ :: qreal
  brushVisible :: bool
  brushTilePos :: "int \<times> int"
  brushDocument :: "nat option"

datatype ItemKind =
    TileLayerItem TileLayer
  | MapObjectItem MapObject
  | TileSelectionItem nat

record Item =
  itemKind :: ItemKind
  itemPos :: "qreal \<times> qreal"
  itemZ :: qreal

datatype SceneItem = BrushPtr | Owned Item

datatype Signal = RegionChanged | RowsInserted | RowsRemoved

datatype Slot = RepaintRegionSlot | RefreshSceneSlot

record Connection =
  sender :: nat
  signal :: Signal
  slot :: Slot

text \<open>
  \<open>sceneItems\<close> are the items of the graphics scene in the order they were added,
  \<open>updateCalls\<close> the repaint requests made through \<open>QGraphicsScene::update\<close>,
  \<open>connections\<close> the signals connected to the scene's slots. The code of
  \<open>BrushItem::beginPaint\<close> and \<open>endPaint\<close> is not part of these sources: \<open>brushCalls\<close>
  records the calls the scene makes of them, in order.
\<close>

record MapScene =
  mMapDocument :: "nat option"
  mBrush :: BrushItem
  mGridVisible :: bool
  mBrushVisible :: bool
  mPainting :: bool
  backgroundBrush :: GlobalColor
  sceneItems :: "SceneItem list"
  sceneRect :: QRectF
  updateCalls :: "QRectF list"
  connections :: "Connection list"
  brushCalls :: "PaintCall list"

text \<open>The constructor; \<open>b\<close> is the brush item as \<open>new BrushItem\<close> made it.\<close>

definition MapScene_new :: "BrushItem \<Rightarrow> MapScene" where
  "MapScene_new b =
     \<lparr>mMapDocument = None,
      mBrush = b\<lparr>brushZ := 10000, brushVisible := False\<rparr>,
      mGridVisible = True,
      mBrushVisible = False,
      mPainting = False,
      backgroundBrush = DarkGray,
      sceneItems = [BrushPtr],
      sceneRect = QRectF_null,
      updateCalls = [],
      connections = [],
      brushCalls = []\<rparr>"

text \<open>The inner loop of \<open>refreshScene\<close>: one item per object of an object group.\<close>

fun addObjectItems :: "MapObject list \<Rightarrow> int \<times> Item list \<Rightarrow> error + (int \<times> Item list)" where
  "addObjectItems [] st = Inr st"
| "addObjectItems (object # rest) (z, its) =
     ebind (iadd z 1) (\<lambda>z'.
       addObjectItems rest
         (z', its @ [\<lparr>itemKind = MapObjectItem object,
                      itemPos = (objectX object, objectY object),
                      itemZ = of_int z\<rparr>]))"

text \<open>The outer loop of \<open>refreshScene\<close> over the layers of the map.\<close>

fun addLayerItems :: "Map \<Rightarrow> Layer list \<Rightarrow> int \<times> Item list \<Rightarrow> error + (int \<times> Item list)" where
  "addLayerItems m [] st = Inr st"
| "addLayerItems m (layer # rest) (z, its) =
     (case dynamic_cast_TileLayer layer of
        Some tlayer \<Rightarrow>
          ebind (imul (layerX tlayer) (tileWidth m)) (\<lambda>px.
          ebind (imul (layerY tlayer) (tileHeight m)) (\<lambda>py.
          ebind (iadd z 1) (\<lambda>z'.
            addLayerItems m rest
              (z', its @ [\<lparr>itemKind = TileLayerItem tlayer,
                           itemPos = (of_int px, of_int py),
                           itemZ = of_int z\<rparr>]))))
      | None \<Rightarrow>
          (case dynamic_cast_ObjectGroup layer of
             Some og \<Rightarrow>
               ebind (addObjectItems (objects og) (z, its)) (\<lambda>st'.
                 addLayerItems m rest st')
           | None \<Rightarrow> addLayerItems m rest (z, its)))"

definition refreshScene :: "documents \<Rightarrow> MapScene \<Rightarrow> error + MapScene" where
  "refreshScene docs s =
     (case mMapDocument s of
        None \<Rightarrow> Inr (s\<lparr>sceneItems := [BrushPtr], sceneRect := QRectF_null\<rparr>)
      | Some d \<Rightarrow>
          (let m = docMap (docs d) in
           ebind (imul (mapWidth m) (tileWidth m)) (\<lambda>w.
           ebind (iadd w 1) (\<lambda>w1.
           ebind (imul (mapHeight m) (tileHeight m)) (\<lambda>h.
           ebind (iadd h 1) (\<lambda>h1.
           ebind (addLayerItems m (layers m) (0, [])) (\<lambda>(z, its).
             Inr (s\<lparr>sceneItems :=
                       BrushPtr # map Owned its
                       @ [Owned \<lparr>itemKind = TileSelectionItem d,
                                 itemPos = (0, 0),
                                 itemZ = 10000 - 1\<rparr>],
                     sceneRect :=
                       \<lparr>rectX = 0, rectY = 0, rectW = of_int w1, rectH = of_int h1\<rparr>\<rparr>))))))))"

text \<open>
  \<open>setMapDocument\<close>: the old document and its layer model are disconnected, the scene is
  rebuilt, the new document's signals are connected to the two slots, the brush is told.
\<close>

definition disconnectFrom :: "nat \<Rightarrow> MapScene \<Rightarrow> MapScene" where
  "disconnectFrom d s = s\<lparr>connections := filter (\<lambda>c. sender c \<noteq> d) (connections s)\<rparr>"

definition connectTo :: "nat \<Rightarrow> MapScene \<Rightarrow> MapScene" where
  "connectTo d s =
     s\<lparr>connections := connections s
          @ [\<lparr>sender = d, signal = RegionChanged, slot = RepaintRegionSlot\<rparr>,
             \<lparr>sender = d, signal = RowsInserted, slot = RefreshSceneSlot\<rparr>,
             \<lparr>sender = d, signal = RowsRemoved, slot = RefreshSceneSlot\<rparr>]\<rparr>"

text \<open>
  Modelled from the spec: \<open>BrushItem::setMapDocument\<close>, whose code is not part of these
  sources, makes the given document the brush's document.
\<close>

definition BrushItem_setMapDocument :: "nat option \<Rightarrow> BrushItem \<Rightarrow> BrushItem" where
  "BrushItem_setMapDocument mapDocument b = b\<lparr>brushDocument := mapDocument\<rparr>"

definition updateBrushVisibility :: "documents \<Rightarrow> MapScene \<Rightarrow> error + MapScene" where
  "updateBrushVisibility docs s =
     ebind
       (if mBrushVisible s then
          (case mMapDocument s of
             Some d \<Rightarrow>
               ebind (QList_at (layers (docMap (docs d))) (currentLayer (docs d))) (\<lambda>layer.
                 Inr (dynamic_cast_TileLayer layer \<noteq> None))
           | None \<Rightarrow> Inr False)
        else Inr False)
       (\<lambda>showBrush. Inr (s\<lparr>mBrush := (mBrush s)\<lparr>brushVisible := showBrush\<rparr>\<rparr>))"

definition setMapDocument :: "documents \<Rightarrow> nat option \<Rightarrow> MapScene \<Rightarrow> error + MapScene" where
  "setMapDocument docs mapDocument s =
     (let s1 = (case mMapDocument s of Some d \<Rightarrow> disconnectFrom d s | None \<Rightarrow> s);
          s2 = s1\<lparr>mMapDocument := mapDocument\<rparr>
      in ebind (refreshScene docs s2) (\<lambda>s3.
           let s4 = (case mMapDocument s3 of Some d \<Rightarrow> connectTo d s3 | None \<Rightarrow> s3);
               s5 = s4\<lparr>mBrush := BrushItem_setMapDocument mapDocument (mBrush s4)\<rparr>
           in updateBrushVisibility docs s5))"

text \<open>
  \<open>repaintRegion\<close>: one repaint request per rectangle of the region. The rectangle in
  pixels comes from \<open>MapDocument::toPixelCoordinates\<close>, a parameter here; the call goes
  through the document pointer.
\<close>

fun repaintRegion ::
  "(MapDocument \<Rightarrow> QRect \<Rightarrow> QRectF) \<Rightarrow> documents \<Rightarrow> QRect list \<Rightarrow> MapScene \<Rightarrow> error + MapScene"
where
  "repaintRegion toPixelCoordinates docs [] s = Inr s"
| "repaintRegion toPixelCoordinates docs (r # rest) s =
     (case mMapDocument s of
        None \<Rightarrow> Inl NullDereference
      | Some d \<Rightarrow>
          repaintRegion toPixelCoordinates docs rest
            (s\<lparr>updateCalls := updateCalls s @ [toPixelCoordinates (docs d) r]\<rparr>))"

definition setGridVisible :: "bool \<Rightarrow> MapScene \<Rightarrow> MapScene" where
  "setGridVisible visible s =
     (if mGridVisible s = visible then s
      else s\<lparr>mGridVisible := visible, updateCalls := updateCalls s @ [QRectF_null]\<rparr>)"

definition setBrushVisible :: "documents \<Rightarrow> bool \<Rightarrow> MapScene \<Rightarrow> error + MapScene" where
  "setBrushVisible docs visible s =
     (if mBrushVisible s = visible then Inr s
      else updateBrushVisibility docs (s\<lparr>mBrushVisible := visible\<rparr>))"

datatype QEventType = Enter | Leave | OtherEvent

definition event :: "documents \<Rightarrow> QEventType \<Rightarrow> MapScene \<Rightarrow> error + MapScene" where
  "event docs ty s =
     (case ty of
        Enter \<Rightarrow> setBrushVisible docs True s
      | Leave \<Rightarrow> setBrushVisible docs False s
      | OtherEvent \<Rightarrow> Inr s)"

text \<open>
  A mouse event of the scene: the position in scene coordinates, and whether the base
  class's dispatch to the items ends with the event accepted.
\<close>

record QGraphicsSceneMouseEvent =
  scenePos :: "qreal \<times> qreal"
  acceptedByItem :: bool

text \<open>
  Modelled from the spec: \<open>BrushItem::setTilePos\<close>, whose code is not part of these
  sources, makes the given tile the brush's tile position.
\<close>

definition setTilePos :: "int \<Rightarrow> int \<Rightarrow> BrushItem \<Rightarrow> BrushItem" where
  "setTilePos tileX tileY b = b\<lparr>brushTilePos := (tileX, tileY)\<rparr>"

definition mouseMoveEvent ::
  "documents \<Rightarrow> QGraphicsSceneMouseEvent \<Rightarrow> MapScene \<Rightarrow> error + MapScene" where
  "mouseMoveEvent docs mouseEvent s =
     (case mMapDocument s of
        None \<Rightarrow> Inr s
      | Some d \<Rightarrow>
          if acceptedByItem mouseEvent then Inr s
          else
            (let m = docMap (docs d);
                 pos = scenePos mouseEvent
             in ebind (int_cast (fst pos)) (\<lambda>ix.
                ebind (idiv ix (tileWidth m)) (\<lambda>tileX.
                ebind (int_cast (snd pos)) (\<lambda>iy.
                ebind (idiv iy (tileHeight m)) (\<lambda>tileY.
                  Inr (s\<lparr>mBrush := setTilePos tileX tileY (mBrush s)\<rparr>)))))))"

definition mousePressEvent :: "MapScene \<Rightarrow> MapScene" where
  "mousePressEvent s =
     (if brushVisible (mBrush s)
      then s\<lparr>brushCalls := brushCalls s @ [BeginPaint], mPainting := True\<rparr>
      else s)"

definition mouseReleaseEvent :: "MapScene \<Rightarrow> MapScene" where
  "mouseReleaseEvent s =
     (if mPainting s
      then s\<lparr>brushCalls := brushCalls s @ [EndPaint], mPainting := False\<rparr>
      else s)"

subsection \<open>Drawing the grid\<close>

record QLine =
  lineX1 :: int
  lineY1 :: int
  lineX2 :: int
  lineY2 :: int

record QPainter =
  pen :: GlobalColor
  opacity :: qreal
  drawnLines :: "QLine list"

definition drawLine :: "int \<Rightarrow> int \<Rightarrow> int \<Rightarrow> int \<Rightarrow> QPainter \<Rightarrow> QPainter" where
  "drawLine x1 y1 x2 y2 p =
     p\<lparr>drawnLines := drawnLines p
          @ [\<lparr>lineX1 = x1, lineY1 = y1, lineX2 = x2, lineY2 = y2\<rparr>]\<rparr>"

text \<open>
  The loop \<open>for (int v = start; v < stop; v += step) body\<close>. Nothing in the loop itself
  makes it end: with \<open>step = 0\<close> it runs forever, which is the value \<open>None\<close>.
\<close>

partial_function (option) forLoop ::
  "(int \<Rightarrow> 'a \<Rightarrow> error + 'a) \<Rightarrow> int \<Rightarrow> int \<Rightarrow> int \<Rightarrow> 'a \<Rightarrow> (error + 'a) option"
where
  "forLoop body step stop v st =
     (if v < stop then
        (case body v st of
           Inl e \<Rightarrow> Some (Inl e)
         | Inr st' \<Rightarrow>
             (case iadd v step of
                Inl e \<Rightarrow> Some (Inl e)
              | Inr v' \<Rightarrow> forLoop body step stop v' st'))
      else Some (Inr st))"

declare forLoop.simps [code]

text \<open>The bounds of the two loops, computed before the pen is set.\<close>

definition gridBounds ::
  "(real \<Rightarrow> real) \<Rightarrow> Map \<Rightarrow> QRectF \<Rightarrow> error + (int \<times> int \<times> int \<times> int)" where
  "gridBounds rnd m rect =
     ebind (cast_quot rnd (rectX rect) (tileWidth m)) (\<lambda>qx.
     ebind (imul qx (tileWidth m)) (\<lambda>startX.
     ebind (cast_quot rnd (rectY rect) (tileHeight m)) (\<lambda>qy.
     ebind (imul qy (tileHeight m)) (\<lambda>startY.
     ebind (int_cast (rectRight rnd rect)) (\<lambda>r.
     ebind (imul (mapWidth m) (tileWidth m)) (\<lambda>w.
     ebind (iadd w 1) (\<lambda>w1.
     ebind (int_cast (rectBottom rnd rect)) (\<lambda>b.
     ebind (imul (mapHeight m) (tileHeight m)) (\<lambda>h.
     ebind (iadd h 1) (\<lambda>h1.
       Inr (startX, startY, min r w1, min b h1)))))))))))"

definition verticalLine :: "QRectF \<Rightarrow> int \<Rightarrow> int \<Rightarrow> QPainter \<Rightarrow> error + QPainter" where
  "verticalLine rect endY x p =
     ebind (int_cast (rectTop rect)) (\<lambda>top.
     ebind (isub endY 1) (\<lambda>y2.
       Inr (drawLine x top x y2 p)))"

definition horizontalLine :: "QRectF \<Rightarrow> int \<Rightarrow> int \<Rightarrow> QPainter \<Rightarrow> error + QPainter" where
  "horizontalLine rect endX y p =
     ebind (int_cast (rectLeft rect)) (\<lambda>left.
     ebind (isub endX 1) (\<lambda>x2.
       Inr (drawLine left y x2 y p)))"

definition drawForeground ::
  "(real \<Rightarrow> real) \<Rightarrow> documents \<Rightarrow> QPainter \<Rightarrow> QRectF \<Rightarrow> MapScene \<Rightarrow> (error + QPainter) option"
where
  "drawForeground rnd docs painter rect s =
     (case mMapDocument s of
        None \<Rightarrow> Some (Inr painter)
      | Some d \<Rightarrow>
          if \<not> mGridVisible s then Some (Inr painter)
          else
            (let m = docMap (docs d) in
             case gridBounds rnd m rect of
               Inl e \<Rightarrow> Some (Inl e)
             | Inr (startX, startY, endX, endY) \<Rightarrow>
                 (case forLoop (verticalLine rect endY) (tileWidth m) endX startX
                         (painter\<lparr>pen := Black, opacity := 1 / 2\<rparr>) of
                    None \<Rightarrow> None
                  | Some (Inl e) \<Rightarrow> Some (Inl e)
                  | Some (Inr p) \<Rightarrow>
                      forLoop (horizontalLine rect endX) (tileHeight m) endY startY p)))"

subsection \<open>Runs of the scene\<close>

datatype Call =
    SetMapDocument "nat option"
  | RefreshScene
  | RepaintRegion "QRect list"
  | SetGridVisible bool
  | SetBrushVisible bool
  | UpdateBrushVisibility
  | Event QEventType
  | MouseMoveEvent QGraphicsSceneMouseEvent
  | MousePressEvent
  | MouseReleaseEvent

fun call ::
  "(MapDocument \<Rightarrow> QRect \<Rightarrow> QRectF) \<Rightarrow> documents \<Rightarrow> Call \<Rightarrow> MapScene \<Rightarrow> error + MapScene"
where
  "call tpc docs (SetMapDocument d) s = setMapDocument docs d s"
| "call tpc docs RefreshScene s = refreshScene docs s"
| "call tpc docs (RepaintRegion region) s = repaintRegion tpc docs region s"
| "call tpc docs (SetGridVisible v) s = Inr (setGridVisible v s)"
| "call tpc docs (SetBrushVisible v) s = setBrushVisible docs v s"
| "call tpc docs UpdateBrushVisibility s = updateBrushVisibility docs s"
| "call tpc docs (Event ty) s = event docs ty s"
| "call tpc docs (MouseMoveEvent e) s = mouseMoveEvent docs e s"
| "call tpc docs MousePressEvent s = Inr (mousePressEvent s)"
| "call tpc docs MouseReleaseEvent s = Inr (mouseReleaseEvent s)"

text \<open>
  The states a scene can be in: the constructor's, and those any returning call leads
  to from one of them. The documents may have changed between two calls.
\<close>

inductive reachable :: "MapScene \<Rightarrow> bool" where
  constructed: "reachable (MapScene_new b)"
| called: "reachable s \<Longrightarrow> call tpc docs c s = Inr s' \<Longrightarrow> reachable s'"

text \<open>
  The unmatched \<open>beginPaint\<close> calls left by a sequence of paint calls that starts with
  \<open>n\<close> of them; \<open>None\<close> when an \<open>endPaint\<close> comes with no unmatched \<open>beginPaint\<close>
  before it.
\<close>

fun unmatched :: "PaintCall list \<Rightarrow> nat \<Rightarrow> nat option" where
  "unmatched [] n = Some n"
| "unmatched (BeginPaint # cs) n = unmatched cs (Suc n)"
| "unmatched (EndPaint # cs) n = (case n of 0 \<Rightarrow> None | Suc k \<Rightarrow> unmatched cs k)"

section \<open>TerrainView\<close>

datatype Orientation = Horizontal | Vertical

record QWheelEvent =
  modifiers :: "32 word"
  orientation :: Orientation
  delta :: int

definition ControlModifier :: "32 word" where
  "ControlModifier = 0x04000000"

text \<open>
  The view owns its zoomable, of state \<open>'z\<close>, and is a tree view, of state \<open>'v\<close>.
  \<open>zoomDeltas\<close> are the deltas handed to \<open>Zoomable::handleWheelDelta\<close>, \<open>baseWheelEvents\<close>
  the events handed on to \<open>QTreeView::wheelEvent\<close>; what these two do to their object
  is a parameter of \<open>wheelEvent\<close>.
\<close>

record ('z, 'v) TerrainView =
  mZoomable :: 'z
  treeView :: 'v
  zoomDeltas :: "int list"
  baseWheelEvents :: "QWheelEvent list"

definition wheelEvent ::
  "(int \<Rightarrow> 'z \<Rightarrow> 'z) \<Rightarrow> (QWheelEvent \<Rightarrow> 'v \<Rightarrow> 'v) \<Rightarrow> QWheelEvent
   \<Rightarrow> ('z, 'v) TerrainView \<Rightarrow> ('z, 'v) TerrainView" where
  "wheelEvent handleWheelDelta QTreeView_wheelEvent ev view =
     (if modifiers ev AND ControlModifier \<noteq> 0 \<and> orientation ev = Vertical
      then view\<lparr>mZoomable := handleWheelDelta (delta ev) (mZoomable view),
                zoomDeltas := zoomDeltas view @ [delta ev]\<rparr>
      else view\<lparr>treeView := QTreeView_wheelEvent ev (treeView view),
                baseWheelEvents := baseWheelEvents view @ [ev]\<rparr>)"

section \<open>TilesetView\<close>

text \<open>
  The model installed on the view is a pointer to an item model, null when none is
  installed; \<open>classOf\<close> gives the class of the object at an address. A \<open>static_cast\<close>
  to \<open>TilesetModel*\<close> keeps a null pointer, gives the same object when it is a
  \<open>TilesetModel\<close> and is undefined otherwise.
\<close>

datatype ModelClass = TilesetModelClass | OtherModelClass

record TilesetView =
  model :: "nat option"

definition static_cast_TilesetModel :: "(nat \<Rightarrow> ModelClass) \<Rightarrow> nat option \<Rightarrow> error + nat option" where
  "static_cast_TilesetModel classOf p =
     (case p of
        None \<Rightarrow> Inr None
      | Some a \<Rightarrow> if classOf a = TilesetModelClass then Inr (Some a) else Inl BadDowncast)"

definition tilesetModel :: "(nat \<Rightarrow> ModelClass) \<Rightarrow> TilesetView \<Rightarrow> error + nat option" where
  "tilesetModel classOf view = static_cast_TilesetModel classOf (model view)"

section \<open>Notions used in the statements\<close>

text \<open>A sequence of calls, each with the documents as they are at that call.\<close>

fun run ::
  "(MapDocument \<Rightarrow> QRect \<Rightarrow> QRectF) \<Rightarrow> (documents \<times> Call) list \<Rightarrow> MapScene \<Rightarrow> error + MapScene"
where
  "run tpc [] s = Inr s"
| "run tpc ((docs, c) # rest) s = ebind (call tpc docs c s) (run tpc rest)"

definition currentLayerValid :: "MapDocument \<Rightarrow> bool" where
  "currentLayerValid doc \<longleftrightarrow>
     0 \<le> currentLayer doc \<and> currentLayer doc < int (length (layers (docMap doc)))"

definition tileLayerSelected :: "MapDocument \<Rightarrow> bool" where
  "tileLayerSelected doc \<longleftrightarrow>
     currentLayerValid doc
     \<and> dynamic_cast_TileLayer (layers (docMap doc) ! nat (currentLayer doc)) \<noteq> None"

text \<open>
  The brush item is visible if and only if the brush-visible flag is set, a document is
  present and the layer at its current-layer index is a tile layer.
\<close>

definition brushShownIff :: "documents \<Rightarrow> MapScene \<Rightarrow> bool" where
  "brushShownIff docs s \<longleftrightarrow>
     (brushVisible (mBrush s) \<longleftrightarrow>
        mBrushVisible s
        \<and> (case mMapDocument s of None \<Rightarrow> False | Some d \<Rightarrow> tileLayerSelected (docs d)))"

text \<open>
  Every \<open>endPaint\<close> among the paint calls made so far has an unmatched \<open>beginPaint\<close>
  before it, and one is still unmatched while \<open>mPainting\<close> is true.
\<close>

definition paintInv :: "MapScene \<Rightarrow> bool" where
  "paintInv s \<longleftrightarrow> (\<exists>n. unmatched (brushCalls s) 0 = Some n \<and> (mPainting s \<longrightarrow> 0 < n))"

text \<open>The connections \<open>setMapDocument\<close> makes for a document.\<close>

definition documentConnections :: "nat \<Rightarrow> Connection list" where
  "documentConnections d =
     [\<lparr>sender = d, signal = RegionChanged, slot = RepaintRegionSlot\<rparr>,
      \<lparr>sender = d, signal = RowsInserted, slot = RefreshSceneSlot\<rparr>,
      \<lparr>sender = d, signal = RowsRemoved, slot = RefreshSceneSlot\<rparr>]"

text \<open>
  The scene's slots are connected to the signals of the document that is set, as
  \<open>setMapDocument\<close> connects them, and to nothing else.
\<close>

definition connInv :: "MapScene \<Rightarrow> bool" where
  "connInv s \<longleftrightarrow>
     connections s
       = (case mMapDocument s of None \<Rightarrow> [] | Some d \<Rightarrow> documentConnections d)"

text \<open>
  What the scene is to show for one layer, in the words of the specification: one item
  for a tile layer, at the layer's tile coordinates multiplied by the tile width and
  height; one item for each object of an object group, at the object's coordinates;
  nothing for a layer of another kind.
\<close>

definition layerItemsSpec :: "Map \<Rightarrow> Layer \<Rightarrow> (ItemKind \<times> (qreal \<times> qreal)) list" where
  "layerItemsSpec m layer =
     (case layer of
        TileLayerOf t \<Rightarrow>
          [(TileLayerItem t,
            (of_int (layerX t * tileWidth m), of_int (layerY t * tileHeight m)))]
      | ObjectGroupOf og \<Rightarrow>
          map (\<lambda>object. (MapObjectItem object, (objectX object, objectY object))) (objects og)
      | OtherLayer \<Rightarrow> [])"

definition itemCount :: "Layer \<Rightarrow> nat" where
  "itemCount layer =
     (case layer of
        TileLayerOf t \<Rightarrow> 1
      | ObjectGroupOf og \<Rightarrow> length (objects og)
      | OtherLayer \<Rightarrow> 0)"

text \<open>Items of the given kinds and positions, with consecutive z-values from \<open>z\<close> on.\<close>

fun numberFrom :: "int \<Rightarrow> (ItemKind \<times> (qreal \<times> qreal)) list \<Rightarrow> Item list" where
  "numberFrom z [] = []"
| "numberFrom z (kp # rest) =
     \<lparr>itemKind = fst kp, itemPos = snd kp, itemZ = of_int z\<rparr> # numberFrom (z + 1) rest"

text \<open>
  No product computed by \<open>refreshScene\<close> and no increment of its item counter leaves the
  range of \<open>int\<close>.
\<close>

definition sceneFitsInt :: "Map \<Rightarrow> bool" where
  "sceneFitsInt m \<longleftrightarrow>
     int_ok (mapWidth m * tileWidth m) \<and> int_ok (mapWidth m * tileWidth m + 1)
     \<and> int_ok (mapHeight m * tileHeight m) \<and> int_ok (mapHeight m * tileHeight m + 1)
     \<and> list_all (\<lambda>layer. case layer of
                    TileLayerOf t \<Rightarrow>
                      int_ok (layerX t * tileWidth m) \<and> int_ok (layerY t * tileHeight m)
                  | _ \<Rightarrow> True) (layers m)
     \<and> int (sum_list (map itemCount (layers m))) \<le> INT_MAX"


definition selectionItem :: "nat \<Rightarrow> Item" where
  "selectionItem d = \<lparr>itemKind = TileSelectionItem d, itemPos = (0, 0), itemZ = 9999\<rparr>"

text \<open>
  The values a counting loop with a positive step visits: \<open>v\<close>, \<open>v + step\<close>, ... as
  long as they are below \<open>stop\<close>.
\<close>

function loopValues :: "int \<Rightarrow> int \<Rightarrow> int \<Rightarrow> int list" where
  "loopValues step stop v =
     (if 0 < step \<and> v < stop then v # loopValues step stop (v + step) else [])"
  by pat_completeness auto
termination
  by (relation "measure (\<lambda>(step, stop, v). nat (stop - v))") auto

declare loopValues.simps [simp del]

text \<open>The first grid coordinate and the bound of a loop of \<open>drawForeground\<close>.\<close>

definition gridStart :: "(real \<Rightarrow> real) \<Rightarrow> qreal \<Rightarrow> int \<Rightarrow> int" where
  "gridStart rnd a tileSize = trunc_toward_zero (rnd (a / of_int tileSize)) * tileSize"

definition gridEnd :: "qreal \<Rightarrow> int \<Rightarrow> int \<Rightarrow> int" where
  "gridEnd b tiles tileSize = min (trunc_toward_zero b) (tiles * tileSize + 1)"

section \<open>Example inputs\<close>

definition ctrlWheel :: QWheelEvent where
  "ctrlWheel = \<lparr>modifiers = 0x04000000, orientation = Vertical, delta = 120\<rparr>"

definition plainView :: "(int, unit) TerrainView" where
  "plainView = \<lparr>mZoomable = 0, treeView = (), zoomDeltas = [], baseWheelEvents = []\<rparr>"

definition exampleClassOf :: "nat \<Rightarrow> ModelClass" where
  "exampleClassOf a = (if a = 7 then TilesetModelClass else OtherModelClass)"

definition freshBrush :: BrushItem where
  "freshBrush = \<lparr>brushZ = 0, brushVisible = True, brushTilePos = (0, 0), brushDocument = None\<rparr>"

definition exampleMap :: Map where
  "exampleMap =
     \<lparr>mapWidth = 2, mapHeight = 2, tileWidth = 32, tileHeight = 32,
      layers = [TileLayerOf \<lparr>layerX = 1, layerY = 2\<rparr>,
                ObjectGroupOf \<lparr>objects = [\<lparr>objectX = 10, objectY = 20\<rparr>,
                                           \<lparr>objectX = 30, objectY = 40\<rparr>]\<rparr>,
                OtherLayer]\<rparr>"

definition docsA :: documents where
  "docsA d = \<lparr>docMap = exampleMap, currentLayer = 0\<rparr>"

definition docsB :: documents where
  "docsB d = \<lparr>docMap = exampleMap, currentLayer = 1\<rparr>"

definition docsBad :: documents where
  "docsBad d = \<lparr>docMap = exampleMap, currentLayer = 3\<rparr>"

definition examplePixels :: "MapDocument \<Rightarrow> QRect \<Rightarrow> QRectF" where
  "examplePixels doc r =
     \<lparr>rectX = of_int (irectX r * tileWidth (docMap doc)),
      rectY = of_int (irectY r * tileHeight (docMap doc)),
      rectW = of_int (irectW r * tileWidth (docMap doc)),
      rectH = of_int (irectH r * tileHeight (docMap doc))\<rparr>"

definition oneTile :: QRect where
  "oneTile = \<lparr>irectX = 0, irectY = 0, irectW = 1, irectH = 1\<rparr>"

definition sceneWithDoc :: MapScene where
  "sceneWithDoc = projr (setMapDocument docsA (Some 0) (MapScene_new freshBrush))"

definition paintingScene :: MapScene where
  "paintingScene =
     projr (run examplePixels
              [(docsA, SetMapDocument (Some 0)), (docsA, Event Enter), (docsA, MousePressEvent)]
              (MapScene_new freshBrush))"

definition negativeMove :: QGraphicsSceneMouseEvent where
  "negativeMove = \<lparr>scenePos = (- 5, - 5), acceptedByItem = False\<rparr>"

definition insideMove :: QGraphicsSceneMouseEvent where
  "insideMove = \<lparr>scenePos = (40, 70), acceptedByItem = False\<rparr>"



definition blankPainter :: QPainter where
  "blankPainter = \<lparr>pen = NoColor, opacity = 1, drawnLines = []\<rparr>"

definition insideRect :: QRectF where
  "insideRect = \<lparr>rectX = 5, rectY = 40, rectW = 45, rectH = 20\<rparr>"

definition belowMapRect :: QRectF where
  "belowMapRect = \<lparr>rectX = 0, rectY = 100, rectW = 50, rectH = 50\<rparr>"

section \<open>Basic facts about the error monad and the operations' frames\<close>

lemma ebind_Inl: "ebind (Inl e) f = Inl e"
  by (simp add: ebind_def)

lemma ebind_Inr: "ebind (Inr v) f = f v"
  by (simp add: ebind_def)

lemma ebind_eq_Inr: "ebind m f = Inr y \<longleftrightarrow> (\<exists>v. m = Inr v \<and> f v = Inr y)"
  by (cases m) (simp_all add: ebind_def)

lemma ebind_eq_Inl: "ebind m f = Inl e \<longleftrightarrow> m = Inl e \<or> (\<exists>v. m = Inr v \<and> f v = Inl e)"
  by (cases m) (simp_all add: ebind_def)

lemma ck_eq_Inr: "ck v = Inr w \<longleftrightarrow> int_ok v \<and> w = v"
  by (auto simp: ck_def)

lemma ck_eq_Inl: "ck v = Inl e \<longleftrightarrow> \<not> int_ok v \<and> e = IntOverflow"
  by (auto simp: ck_def)

lemma refreshScene_frame:
  assumes "refreshScene docs s = Inr s'"
  shows "mMapDocument s' = mMapDocument s" "mBrush s' = mBrush s"
    "mGridVisible s' = mGridVisible s" "mBrushVisible s' = mBrushVisible s"
    "mPainting s' = mPainting s" "updateCalls s' = updateCalls s"
    "connections s' = connections s" "brushCalls s' = brushCalls s"
  using assms
  by (auto simp: refreshScene_def Let_def ebind_eq_Inr split: option.splits prod.splits)

lemma updateBrushVisibility_frame:
  assumes "updateBrushVisibility docs s = Inr s'"
  shows "mMapDocument s' = mMapDocument s" "brushZ (mBrush s') = brushZ (mBrush s)"
    "brushTilePos (mBrush s') = brushTilePos (mBrush s)"
    "brushDocument (mBrush s') = brushDocument (mBrush s)"
    "mGridVisible s' = mGridVisible s" "mBrushVisible s' = mBrushVisible s"
    "mPainting s' = mPainting s" "updateCalls s' = updateCalls s"
    "connections s' = connections s" "brushCalls s' = brushCalls s"
    "sceneItems s' = sceneItems s" "sceneRect s' = sceneRect s"
  using assms by (auto simp: updateBrushVisibility_def ebind_eq_Inr)

lemma repaintRegion_frame:
  "repaintRegion tpc docs region s = Inr s' \<Longrightarrow>
     mMapDocument s' = mMapDocument s \<and> mBrush s' = mBrush s
     \<and> mGridVisible s' = mGridVisible s \<and> mBrushVisible s' = mBrushVisible s
     \<and> mPainting s' = mPainting s \<and> connections s' = connections s
     \<and> brushCalls s' = brushCalls s \<and> sceneItems s' = sceneItems s
     \<and> sceneRect s' = sceneRect s"
proof (induction region arbitrary: s)
  case Nil
  then show ?case by simp
next
  case (Cons r rest)
  then obtain d where d: "mMapDocument s = Some d"
    and rec: "repaintRegion tpc docs rest (s\<lparr>updateCalls := updateCalls s @ [tpc (docs d) r]\<rparr>) = Inr s'"
    by (auto split: option.splits)
  from Cons.IH [OF rec] show ?case by simp
qed

lemma mouseMoveEvent_frame:
  assumes "mouseMoveEvent docs ev s = Inr s'"
  shows "mMapDocument s' = mMapDocument s" "brushZ (mBrush s') = brushZ (mBrush s)"
    "brushVisible (mBrush s') = brushVisible (mBrush s)"
    "brushDocument (mBrush s') = brushDocument (mBrush s)"
    "mGridVisible s' = mGridVisible s" "mBrushVisible s' = mBrushVisible s"
    "mPainting s' = mPainting s" "updateCalls s' = updateCalls s"
    "connections s' = connections s" "brushCalls s' = brushCalls s"
    "sceneItems s' = sceneItems s" "sceneRect s' = sceneRect s"
  using assms
  by (auto simp: mouseMoveEvent_def Let_def ebind_eq_Inr setTilePos_def
           split: option.splits if_splits)

lemma setBrushVisible_frame:
  assumes "setBrushVisible docs v s = Inr s'"
  shows "mMapDocument s' = mMapDocument s \<and> brushZ (mBrush s') = brushZ (mBrush s)
    \<and> brushTilePos (mBrush s') = brushTilePos (mBrush s)
    \<and> brushDocument (mBrush s') = brushDocument (mBrush s)
    \<and> mGridVisible s' = mGridVisible s
    \<and> mPainting s' = mPainting s \<and> updateCalls s' = updateCalls s
    \<and> connections s' = connections s \<and> brushCalls s' = brushCalls s
    \<and> sceneItems s' = sceneItems s \<and> sceneRect s' = sceneRect s"
proof (cases "mBrushVisible s = v")
  case True
  then have "s' = s" using assms by (simp add: setBrushVisible_def)
  then show ?thesis by simp
next
  case False
  then have "updateBrushVisibility docs (s\<lparr>mBrushVisible := v\<rparr>) = Inr s'"
    using assms by (simp add: setBrushVisible_def)
  from updateBrushVisibility_frame [OF this] show ?thesis by simp
qed

lemma event_frame:
  assumes "event docs ty s = Inr s'"
  shows "mMapDocument s' = mMapDocument s \<and> brushZ (mBrush s') = brushZ (mBrush s)
    \<and> brushTilePos (mBrush s') = brushTilePos (mBrush s)
    \<and> brushDocument (mBrush s') = brushDocument (mBrush s)
    \<and> mGridVisible s' = mGridVisible s
    \<and> mPainting s' = mPainting s \<and> updateCalls s' = updateCalls s
    \<and> connections s' = connections s \<and> brushCalls s' = brushCalls s
    \<and> sceneItems s' = sceneItems s \<and> sceneRect s' = sceneRect s"
proof (cases ty)
  case Enter
  then have "setBrushVisible docs True s = Inr s'" using assms by (simp add: event_def)
  then show ?thesis by (rule setBrushVisible_frame)
next
  case Leave
  then have "setBrushVisible docs False s = Inr s'" using assms by (simp add: event_def)
  then show ?thesis by (rule setBrushVisible_frame)
next
  case OtherEvent
  then have "s' = s" using assms by (simp add: event_def)
  then show ?thesis by simp
qed

lemma setMapDocument_frame:
  assumes "setMapDocument docs md s = Inr s'"
  shows "mMapDocument s' = md \<and> brushZ (mBrush s') = brushZ (mBrush s)
    \<and> brushTilePos (mBrush s') = brushTilePos (mBrush s)
    \<and> brushDocument (mBrush s') = md
    \<and> mGridVisible s' = mGridVisible s \<and> mBrushVisible s' = mBrushVisible s
    \<and> mPainting s' = mPainting s \<and> updateCalls s' = updateCalls s
    \<and> brushCalls s' = brushCalls s"
proof -
  define s2 where "s2 = (case mMapDocument s of Some d \<Rightarrow> disconnectFrom d s | None \<Rightarrow> s)\<lparr>mMapDocument := md\<rparr>"
  define s5 where "s5 = (\<lambda>s3. (case mMapDocument s3 of Some d \<Rightarrow> connectTo d s3 | None \<Rightarrow> s3)
                 \<lparr>mBrush := (mBrush (case mMapDocument s3 of Some d \<Rightarrow> connectTo d s3 | None \<Rightarrow> s3))\<lparr>brushDocument := md\<rparr>\<rparr>)"
  have "ebind (refreshScene docs s2) (\<lambda>s3. updateBrushVisibility docs (s5 s3)) = Inr s'"
    using assms by (simp add: setMapDocument_def BrushItem_setMapDocument_def Let_def s2_def s5_def)
  then obtain s3 where s3: "refreshScene docs s2 = Inr s3"
    and u: "updateBrushVisibility docs (s5 s3) = Inr s'"
    unfolding ebind_eq_Inr by blast
  note r = refreshScene_frame [OF s3]
  note v = updateBrushVisibility_frame [OF u]
  have s2: "mBrush s2 = mBrush s" "mGridVisible s2 = mGridVisible s" "mBrushVisible s2 = mBrushVisible s"
    "mPainting s2 = mPainting s" "updateCalls s2 = updateCalls s" "brushCalls s2 = brushCalls s"
    "mMapDocument s2 = md"
    by (simp_all add: s2_def disconnectFrom_def split: option.splits)
  have s5: "mMapDocument (s5 s3) = mMapDocument s3" "brushZ (mBrush (s5 s3)) = brushZ (mBrush s3)"
    "brushTilePos (mBrush (s5 s3)) = brushTilePos (mBrush s3)"
    "brushDocument (mBrush (s5 s3)) = md"
    "mGridVisible (s5 s3) = mGridVisible s3" "mBrushVisible (s5 s3) = mBrushVisible s3"
    "mPainting (s5 s3) = mPainting s3" "updateCalls (s5 s3) = updateCalls s3"
    "brushCalls (s5 s3) = brushCalls s3"
    by (simp_all add: s5_def connectTo_def split: option.splits)
  show ?thesis
    by (simp add: r v s2 s5)
qed


lemmas eval_defs =
  brushShownIff_def MapScene_new_def freshBrush_def docsA_def docsB_def docsBad_def exampleMap_def
  setMapDocument_def BrushItem_setMapDocument_def setBrushVisible_def
  updateBrushVisibility_def refreshScene_def
  ebind_def imul_def iadd_def ck_def int_ok_def INT_MIN_def INT_MAX_def Let_def
  dynamic_cast_TileLayer_def dynamic_cast_ObjectGroup_def QList_at_def connectTo_def
  disconnectFrom_def tileLayerSelected_def currentLayerValid_def event_def
  setGridVisible_def QRectF_null_def

lemma sceneWithDoc_eq: "setMapDocument docsA (Some 0) (MapScene_new freshBrush) = Inr sceneWithDoc"
  by (simp add: sceneWithDoc_def eval_defs)

lemma sceneWithDoc_document: "mMapDocument sceneWithDoc = Some 0"
  using setMapDocument_frame [OF sceneWithDoc_eq] by simp

lemma sceneWithDoc_reachable: "reachable sceneWithDoc"
  using reachable.constructed [of freshBrush]
    reachable.called [of "MapScene_new freshBrush" examplePixels docsA "SetMapDocument (Some 0)" sceneWithDoc]
    sceneWithDoc_eq
  by simp


section \<open>TerrainView::wheelEvent\<close>

lemma control_held: "(w :: 32 word) AND ControlModifier \<noteq> 0 \<longleftrightarrow> bit w 26"
proof -
  have e: "ControlModifier = (2 :: 32 word) ^ 26" by (simp add: ControlModifier_def)
  show ?thesis unfolding e by (simp only: and_exp_eq_0_iff_not_bit not_not)
qed

text \<open>
  C7. The Control modifier is bit 26 of the event's modifiers. The delta of a wheel
  event is handed to the zoomable exactly when Control is held and the wheel is
  vertical, and then nothing reaches the tree view; in every other case the event itself
  is handed to \<open>QTreeView::wheelEvent\<close> and the zoomable is left as it was.
\<close>

theorem wheelEvent_forwards_iff:
  "(zoomDeltas (wheelEvent h b ev view) = zoomDeltas view @ [delta ev]
      \<longleftrightarrow> bit (modifiers ev) 26 \<and> orientation ev = Vertical)
   \<and> (bit (modifiers ev) 26 \<and> orientation ev = Vertical \<longrightarrow>
        wheelEvent h b ev view
          = view\<lparr>mZoomable := h (delta ev) (mZoomable view),
                 zoomDeltas := zoomDeltas view @ [delta ev]\<rparr>)
   \<and> (\<not> (bit (modifiers ev) 26 \<and> orientation ev = Vertical) \<longrightarrow>
        wheelEvent h b ev view
          = view\<lparr>treeView := b ev (treeView view),
                 baseWheelEvents := baseWheelEvents view @ [ev]\<rparr>
        \<and> mZoomable (wheelEvent h b ev view) = mZoomable view)"
  by (simp add: wheelEvent_def control_held)

theorem wheelEvent_forwards_iff_witness:
  "bit (modifiers ctrlWheel) 26 \<and> orientation ctrlWheel = Vertical
   \<and> wheelEvent (\<lambda>d z. z + d) (\<lambda>e v. v) ctrlWheel plainView
       = \<lparr>mZoomable = 120, treeView = (), zoomDeltas = [120], baseWheelEvents = []\<rparr>"
  using wheelEvent_forwards_iff [of "\<lambda>d z. z + d" "\<lambda>e v. v" ctrlWheel plainView]
  by (simp add: ctrlWheel_def plainView_def bit_iff_odd)

section \<open>TilesetView::tilesetModel\<close>

text \<open>
  C10. \<open>tilesetModel\<close> casts the installed model without a check: when the installed
  model is a \<open>TilesetModel\<close> the result is that very model, and when it is a model of
  another class the cast is undefined.
\<close>

theorem tilesetModel_cast:
  "(model view = Some a \<and> classOf a = TilesetModelClass \<longrightarrow>
      tilesetModel classOf view = Inr (model view))
   \<and> (model view = Some a \<and> classOf a \<noteq> TilesetModelClass \<longrightarrow>
      tilesetModel classOf view = Inl BadDowncast)"
  by (simp add: tilesetModel_def static_cast_TilesetModel_def)

theorem tilesetModel_cast_witness:
  "exampleClassOf 7 = TilesetModelClass
   \<and> tilesetModel exampleClassOf \<lparr>model = Some 7\<rparr> = Inr (Some 7)
   \<and> exampleClassOf 8 \<noteq> TilesetModelClass
   \<and> tilesetModel exampleClassOf \<lparr>model = Some 8\<rparr> = Inl BadDowncast"
  using tilesetModel_cast [of "\<lparr>model = Some 7\<rparr>" 7 exampleClassOf]
    tilesetModel_cast [of "\<lparr>model = Some 8\<rparr>" 8 exampleClassOf]
  by (simp add: exampleClassOf_def)

section \<open>Brush visibility\<close>

lemma updateBrushVisibility_returns_iff:
  "(\<exists>s'. updateBrushVisibility docs s = Inr s') \<longleftrightarrow>
     (mBrushVisible s \<longrightarrow>
        (case mMapDocument s of None \<Rightarrow> True | Some d \<Rightarrow> currentLayerValid (docs d)))"
  by (auto simp: updateBrushVisibility_def ebind_def QList_at_def currentLayerValid_def
           split: option.splits)







section \<open>Visibility setters\<close>

text \<open>
  C5. After \<open>setGridVisible v\<close> the grid-visible flag is \<open>v\<close>, and after a
  \<open>setBrushVisible v\<close> that returns the brush-visible flag is \<open>v\<close>. A call with the
  value the flag already has returns the very same state: no repaint request is added
  and the brush's visibility is not recomputed. Both setters are idempotent, and
  \<open>setBrushVisible\<close> returns whenever no document is set or the document's
  current-layer index is valid.
\<close>

theorem visibility_setters:
  "mGridVisible (setGridVisible v s) = v
   \<and> (\<forall>s'. setBrushVisible docs v s = Inr s' \<longrightarrow> mBrushVisible s' = v)
   \<and> (mGridVisible s = v \<longrightarrow> setGridVisible v s = s)
   \<and> (mBrushVisible s = v \<longrightarrow> setBrushVisible docs v s = Inr s)
   \<and> setGridVisible v (setGridVisible v s) = setGridVisible v s
   \<and> (\<forall>s'. setBrushVisible docs v s = Inr s' \<longrightarrow> setBrushVisible docs v s' = Inr s')
   \<and> ((case mMapDocument s of None \<Rightarrow> True | Some d \<Rightarrow> currentLayerValid (docs d))
        \<longrightarrow> (\<exists>s'. setBrushVisible docs v s = Inr s'))"
proof -
  have a: "mBrushVisible s' = v" if "setBrushVisible docs v s = Inr s'" for s'
  proof (cases "mBrushVisible s = v")
    case True
    then show ?thesis using that by (auto simp: setBrushVisible_def)
  next
    case False
    then have "updateBrushVisibility docs (s\<lparr>mBrushVisible := v\<rparr>) = Inr s'"
      using that by (simp add: setBrushVisible_def)
    from updateBrushVisibility_frame(6) [OF this] show ?thesis by simp
  qed
  have b: "\<exists>s'. setBrushVisible docs v s = Inr s'"
    if "case mMapDocument s of None \<Rightarrow> True | Some d \<Rightarrow> currentLayerValid (docs d)"
    using that updateBrushVisibility_returns_iff [of docs "s\<lparr>mBrushVisible := v\<rparr>"]
    by (auto simp: setBrushVisible_def)
  have c: "setBrushVisible docs v s' = Inr s'" if "setBrushVisible docs v s = Inr s'" for s'
    using a [OF that] by (simp add: setBrushVisible_def)
  have g: "mGridVisible (setGridVisible v s) = v" "mGridVisible s = v \<longrightarrow> setGridVisible v s = s"
    "setGridVisible v (setGridVisible v s) = setGridVisible v s"
    by (simp_all add: setGridVisible_def)
  have d: "mBrushVisible s = v \<longrightarrow> setBrushVisible docs v s = Inr s"
    by (simp add: setBrushVisible_def)
  from a b c g d show ?thesis by blast
qed


theorem visibility_setters_witness:
  "mBrushVisible (MapScene_new freshBrush) = False
   \<and> mGridVisible (MapScene_new freshBrush) = True
   \<and> mGridVisible (setGridVisible False (MapScene_new freshBrush)) = False
   \<and> setGridVisible True (MapScene_new freshBrush) = MapScene_new freshBrush
   \<and> setBrushVisible docsA False (MapScene_new freshBrush) = Inr (MapScene_new freshBrush)"
proof -
  have a: "mGridVisible (MapScene_new freshBrush) = True"
    "mBrushVisible (MapScene_new freshBrush) = False"
    by (simp_all add: MapScene_new_def)
  from visibility_setters [of False "MapScene_new freshBrush" docsA]
    visibility_setters [of True "MapScene_new freshBrush" docsA] a
  show ?thesis by blast
qed

section \<open>Reachable states\<close>

lemma run_reachable: "reachable s \<Longrightarrow> run tpc cs s = Inr s' \<Longrightarrow> reachable s'"
proof (induction cs arbitrary: s)
  case Nil
  then show ?case by simp
next
  case (Cons dc rest)
  obtain docs c where dc: "dc = (docs, c)" by (cases dc)
  from Cons.prems(2) obtain s1 where s1: "call tpc docs c s = Inr s1" and r: "run tpc rest s1 = Inr s'"
    by (auto simp: dc ebind_eq_Inr)
  from Cons.prems(1) s1 have "reachable s1" by (rule reachable.called)
  then show ?case using r by (rule Cons.IH)
qed

lemma call_paint_frame:
  assumes "call tpc docs c s = Inr s'" "c \<noteq> MousePressEvent" "c \<noteq> MouseReleaseEvent"
  shows "brushCalls s' = brushCalls s \<and> mPainting s' = mPainting s"
proof (cases c)
  case (SetMapDocument md)
  then show ?thesis using assms setMapDocument_frame [of docs md s s'] by simp
next
  case RefreshScene
  then show ?thesis using assms refreshScene_frame [of docs s s'] by simp
next
  case (RepaintRegion region)
  then show ?thesis using assms repaintRegion_frame [of tpc docs region s s'] by simp
next
  case (SetGridVisible v)
  then have "s' = setGridVisible v s" using assms by simp
  then show ?thesis by (simp add: setGridVisible_def)
next
  case (SetBrushVisible v)
  then show ?thesis using assms setBrushVisible_frame [of docs v s s'] by simp
next
  case UpdateBrushVisibility
  then show ?thesis using assms updateBrushVisibility_frame [of docs s s'] by simp
next
  case (Event ty)
  then show ?thesis using assms event_frame [of docs ty s s'] by simp
next
  case (MouseMoveEvent e)
  then show ?thesis using assms mouseMoveEvent_frame [of docs e s s'] by simp
qed (use assms in simp_all)

lemma unmatched_append_Begin:
  "unmatched (cs @ [BeginPaint]) n = map_option Suc (unmatched cs n)"
proof (induction cs n rule: unmatched.induct)
  case (3 cs n)
  then show ?case by (cases n) simp_all
qed simp_all

lemma unmatched_append_End:
  "unmatched (cs @ [EndPaint]) n =
     (case unmatched cs n of None \<Rightarrow> None | Some 0 \<Rightarrow> None | Some (Suc k) \<Rightarrow> Some k)"
proof (induction cs n rule: unmatched.induct)
  case (1 n)
  then show ?case by (cases n) simp_all
next
  case (3 cs n)
  then show ?case by (cases n) simp_all
qed simp_all

lemma paintInv_step:
  assumes "paintInv s" "call tpc docs c s = Inr s'"
  shows "paintInv s'"
proof -
  from assms(1) obtain n where n: "unmatched (brushCalls s) 0 = Some n" "mPainting s \<longrightarrow> 0 < n"
    by (auto simp: paintInv_def)
  consider "c = MousePressEvent" | "c = MouseReleaseEvent"
    | "c \<noteq> MousePressEvent" "c \<noteq> MouseReleaseEvent" by blast
  then show ?thesis
  proof cases
    case 1
    then have "s' = mousePressEvent s" using assms(2) by simp
    then show ?thesis using n
      by (auto simp: paintInv_def mousePressEvent_def unmatched_append_Begin)
  next
    case 2
    then have "s' = mouseReleaseEvent s" using assms(2) by simp
    then show ?thesis using n
      by (cases n) (auto simp: paintInv_def mouseReleaseEvent_def unmatched_append_End)
  next
    case 3
    from call_paint_frame [OF assms(2) 3] show ?thesis using n by (auto simp: paintInv_def)
  qed
qed

lemma reachable_paintInv: "reachable s \<Longrightarrow> paintInv s"
proof (induction rule: reachable.induct)
  case (constructed b)
  then show ?case by (simp add: paintInv_def MapScene_new_def)
next
  case (called s tpc docs c s')
  then show ?case by (blast intro: paintInv_step)
qed

text \<open>
  C9, as amended. The paint calls are balanced in one direction only. For every call
  on a reachable scene: \<open>mPainting\<close> goes from false to true only in a mouse press with
  the brush item visible, which calls \<open>beginPaint\<close>; a mouse press with the brush item
  visible calls \<open>beginPaint\<close> whether or not \<open>mPainting\<close> is already true, and a mouse
  press with the brush item hidden changes nothing; a mouse release calls \<open>endPaint\<close>
  exactly when \<open>mPainting\<close> is true, and leaves it false; no other call adds an
  \<open>endPaint\<close>; and in the sequence of paint calls made so far every \<open>endPaint\<close> has an
  unmatched \<open>beginPaint\<close> before it, with one still unmatched whenever \<open>mPainting\<close> is
  true. Calls of \<open>beginPaint\<close> can stay unmatched.
\<close>

theorem endPaint_follows_beginPaint:
  assumes "reachable s" "call tpc docs c s = Inr s'"
  shows "(mPainting s' \<and> \<not> mPainting s \<longrightarrow>
            c = MousePressEvent \<and> brushVisible (mBrush s)
            \<and> brushCalls s' = brushCalls s @ [BeginPaint])
       \<and> (c = MousePressEvent \<longrightarrow>
            (if brushVisible (mBrush s)
             then brushCalls s' = brushCalls s @ [BeginPaint] \<and> mPainting s'
             else s' = s))
       \<and> (c = MouseReleaseEvent \<longrightarrow>
            (if mPainting s then brushCalls s' = brushCalls s @ [EndPaint]
             else brushCalls s' = brushCalls s)
            \<and> \<not> mPainting s')
       \<and> (c \<noteq> MouseReleaseEvent \<longrightarrow>
            brushCalls s' = brushCalls s \<or> brushCalls s' = brushCalls s @ [BeginPaint])
       \<and> (\<exists>n. unmatched (brushCalls s') 0 = Some n \<and> (mPainting s' \<longrightarrow> 0 < n))"
proof -
  have inv: "paintInv s'"
    using reachable_paintInv [OF assms(1)] assms(2) by (rule paintInv_step)
  consider "c = MousePressEvent" | "c = MouseReleaseEvent"
    | "c \<noteq> MousePressEvent" "c \<noteq> MouseReleaseEvent" by blast
  then have "(mPainting s' \<and> \<not> mPainting s \<longrightarrow>
            c = MousePressEvent \<and> brushVisible (mBrush s)
            \<and> brushCalls s' = brushCalls s @ [BeginPaint])
       \<and> (c = MousePressEvent \<longrightarrow>
            (if brushVisible (mBrush s)
             then brushCalls s' = brushCalls s @ [BeginPaint] \<and> mPainting s'
             else s' = s))
       \<and> (c = MouseReleaseEvent \<longrightarrow>
            (if mPainting s then brushCalls s' = brushCalls s @ [EndPaint]
             else brushCalls s' = brushCalls s)
            \<and> \<not> mPainting s')
       \<and> (c \<noteq> MouseReleaseEvent \<longrightarrow>
            brushCalls s' = brushCalls s \<or> brushCalls s' = brushCalls s @ [BeginPaint])"
  proof cases
    case 1
    then have "s' = mousePressEvent s" using assms(2) by simp
    then show ?thesis using 1 by (simp add: mousePressEvent_def)
  next
    case 2
    then have "s' = mouseReleaseEvent s" using assms(2) by simp
    then show ?thesis using 2 by (simp add: mouseReleaseEvent_def)
  next
    case 3
    from call_paint_frame [OF assms(2) 3] show ?thesis using 3 by simp
  qed
  then show ?thesis using inv unfolding paintInv_def by blast
qed

lemma paintingScene_eq:
  "run examplePixels
     [(docsA, SetMapDocument (Some 0)), (docsA, Event Enter), (docsA, MousePressEvent)]
     (MapScene_new freshBrush) = Inr paintingScene"
  by (simp add: paintingScene_def eval_defs mousePressEvent_def)

theorem endPaint_follows_beginPaint_witness:
  "reachable paintingScene
   \<and> mPainting paintingScene
   \<and> brushCalls paintingScene = [BeginPaint]
   \<and> call examplePixels docsA MouseReleaseEvent paintingScene
       = Inr (paintingScene\<lparr>brushCalls := [BeginPaint, EndPaint], mPainting := False\<rparr>)
   \<and> unmatched [BeginPaint, EndPaint] 0 = Some 0"
proof -
  have r: "reachable paintingScene"
    using reachable.constructed paintingScene_eq by (rule run_reachable)
  have f: "mPainting paintingScene" "brushCalls paintingScene = [BeginPaint]"
    by (simp_all add: paintingScene_def eval_defs mousePressEvent_def)
  have c: "call examplePixels docsA MouseReleaseEvent paintingScene
       = Inr (paintingScene\<lparr>brushCalls := [BeginPaint, EndPaint], mPainting := False\<rparr>)"
    using f by (simp add: mouseReleaseEvent_def)
  from endPaint_follows_beginPaint [OF r c] r f c show ?thesis by simp
qed

text \<open>
  C9 as stated fails: the paint calls do get unbalanced. With the brush item visible,
  two mouse presses followed by one release make the calls \<open>beginPaint\<close>,
  \<open>beginPaint\<close>, \<open>endPaint\<close> and leave \<open>mPainting\<close> false with one \<open>beginPaint\<close>
  unmatched.
\<close>

theorem double_press_counterexample:
  "map_sum id (\<lambda>s. (brushCalls s, mPainting s))
     (run examplePixels
        [(docsA, SetMapDocument (Some 0)), (docsA, Event Enter), (docsA, MousePressEvent),
         (docsA, MousePressEvent), (docsA, MouseReleaseEvent)]
        (MapScene_new freshBrush))
     = Inr ([BeginPaint, BeginPaint, EndPaint], False)
   \<and> unmatched [BeginPaint, BeginPaint, EndPaint] 0 = Some 1"
  by (simp add: eval_defs mousePressEvent_def mouseReleaseEvent_def)


section \<open>Guards against an absent document\<close>

lemma addObjectItems_error:
  "addObjectItems os st = Inl e \<Longrightarrow> e = IntOverflow"
proof (induction os arbitrary: st)
  case Nil
  then show ?case by simp
next
  case (Cons object rest)
  obtain z its where st: "st = (z, its)" by (cases st)
  from Cons.prems show ?case
    by (auto simp: st ebind_eq_Inl iadd_def ck_eq_Inl ck_eq_Inr dest: Cons.IH)
qed

lemma addLayerItems_error:
  "addLayerItems m ls st = Inl e \<Longrightarrow> e = IntOverflow"
proof (induction ls arbitrary: st)
  case Nil
  then show ?case by simp
next
  case (Cons layer rest)
  obtain z its where st: "st = (z, its)" by (cases st)
  from Cons.prems show ?case
    by (auto simp: st ebind_eq_Inl iadd_def imul_def ck_eq_Inl ck_eq_Inr
             split: option.splits dest: Cons.IH addObjectItems_error)
qed

lemma refreshScene_error: "refreshScene docs s = Inl e \<Longrightarrow> e = IntOverflow"
  by (auto simp: refreshScene_def Let_def ebind_eq_Inl iadd_def imul_def ck_eq_Inl ck_eq_Inr
           split: option.splits prod.splits dest: addLayerItems_error)

lemma updateBrushVisibility_error:
  "updateBrushVisibility docs s = Inl e \<Longrightarrow> e = IndexOutOfRange"
  by (auto simp: updateBrushVisibility_def ebind_eq_Inl QList_at_def split: option.splits if_splits)

lemma setMapDocument_error:
  "setMapDocument docs md s = Inl e \<Longrightarrow> e = IntOverflow \<or> e = IndexOutOfRange"
  by (auto simp: setMapDocument_def Let_def ebind_eq_Inl
           dest: refreshScene_error updateBrushVisibility_error)

lemma int_cast_error: "int_cast r = Inl e \<Longrightarrow> e = UndefinedCast"
  by (auto simp: int_cast_def split: if_splits)

lemma idiv_error: "idiv a b = Inl e \<Longrightarrow> e = DivisionByZero \<or> e = IntOverflow"
  by (auto simp: idiv_def ck_eq_Inl split: if_splits)

lemma mouseMoveEvent_error:
  "mouseMoveEvent docs ev s = Inl e \<Longrightarrow> e = UndefinedCast \<or> e = DivisionByZero \<or> e = IntOverflow"
  by (auto simp: mouseMoveEvent_def Let_def ebind_eq_Inl split: option.splits if_splits
           dest: int_cast_error idiv_error)

lemma repaintRegion_no_document:
  "mMapDocument s = None \<Longrightarrow>
     repaintRegion tpc docs region s = (if region = [] then Inr s else Inl NullDereference)"
  by (cases region) simp_all

lemma repaintRegion_error:
  "repaintRegion tpc docs region s = Inl e \<Longrightarrow>
     e = NullDereference \<and> mMapDocument s = None \<and> region \<noteq> []"
proof (induction region arbitrary: s)
  case Nil
  then show ?case by simp
next
  case (Cons r rest)
  show ?case
  proof (cases "mMapDocument s")
    case None
    then show ?thesis using Cons.prems by simp
  next
    case (Some d)
    then have "repaintRegion tpc docs rest (s\<lparr>updateCalls := updateCalls s @ [tpc (docs d) r]\<rparr>) = Inl e"
      using Cons.prems by simp
    from Cons.IH [OF this] show ?thesis using Some by simp
  qed
qed

lemma call_NullDereference:
  assumes "call tpc docs c s = Inl NullDereference"
  shows "mMapDocument s = None \<and> (\<exists>region. c = RepaintRegion region \<and> region \<noteq> [])"
proof (cases c)
  case (SetMapDocument md)
  then show ?thesis using assms setMapDocument_error [of docs md s NullDereference] by simp
next
  case RefreshScene
  then show ?thesis using assms refreshScene_error [of docs s NullDereference] by simp
next
  case (RepaintRegion region)
  then show ?thesis using assms repaintRegion_error [of tpc docs region s NullDereference] by simp
next
  case (SetBrushVisible v)
  then have "updateBrushVisibility docs (s\<lparr>mBrushVisible := v\<rparr>) = Inl NullDereference"
    using assms by (simp add: setBrushVisible_def split: if_splits)
  then show ?thesis using updateBrushVisibility_error by blast
next
  case UpdateBrushVisibility
  then show ?thesis using assms updateBrushVisibility_error [of docs s NullDereference] by simp
next
  case (Event ty)
  then have "\<exists>v. updateBrushVisibility docs (s\<lparr>mBrushVisible := v\<rparr>) = Inl NullDereference"
    using assms by (cases ty) (auto simp: event_def setBrushVisible_def split: if_splits)
  then show ?thesis using updateBrushVisibility_error by blast
next
  case (MouseMoveEvent e)
  then show ?thesis using assms mouseMoveEvent_error [of docs e s NullDereference] by simp
qed (use assms in simp_all)

lemma setMapDocument_connections:
  assumes "setMapDocument docs md s = Inr s'"
  shows "connections s' =
           (case mMapDocument s of Some d \<Rightarrow> filter (\<lambda>c. sender c \<noteq> d) (connections s)
            | None \<Rightarrow> connections s)
           @ (case md of
                Some d \<Rightarrow> [\<lparr>sender = d, signal = RegionChanged, slot = RepaintRegionSlot\<rparr>,
                           \<lparr>sender = d, signal = RowsInserted, slot = RefreshSceneSlot\<rparr>,
                           \<lparr>sender = d, signal = RowsRemoved, slot = RefreshSceneSlot\<rparr>]
              | None \<Rightarrow> [])"
proof -
  define s2 where "s2 = (case mMapDocument s of Some d \<Rightarrow> disconnectFrom d s | None \<Rightarrow> s)\<lparr>mMapDocument := md\<rparr>"
  define s5 where "s5 = (\<lambda>s3. (case mMapDocument s3 of Some d \<Rightarrow> connectTo d s3 | None \<Rightarrow> s3)
                 \<lparr>mBrush := (mBrush (case mMapDocument s3 of Some d \<Rightarrow> connectTo d s3 | None \<Rightarrow> s3))\<lparr>brushDocument := md\<rparr>\<rparr>)"
  have "ebind (refreshScene docs s2) (\<lambda>s3. updateBrushVisibility docs (s5 s3)) = Inr s'"
    using assms by (simp add: setMapDocument_def BrushItem_setMapDocument_def Let_def s2_def s5_def)
  then obtain s3 where s3: "refreshScene docs s2 = Inr s3"
    and u: "updateBrushVisibility docs (s5 s3) = Inr s'"
    unfolding ebind_eq_Inr by blast
  note r = refreshScene_frame [OF s3]
  note v = updateBrushVisibility_frame [OF u]
  have c2: "connections s2 = (case mMapDocument s of Some d \<Rightarrow> filter (\<lambda>c. sender c \<noteq> d) (connections s)
            | None \<Rightarrow> connections s)" "mMapDocument s2 = md"
    by (simp_all add: s2_def disconnectFrom_def split: option.splits)
  have "connections (s5 s3) = connections s3 @ (case mMapDocument s3 of
                Some d \<Rightarrow> [\<lparr>sender = d, signal = RegionChanged, slot = RepaintRegionSlot\<rparr>,
                           \<lparr>sender = d, signal = RowsInserted, slot = RefreshSceneSlot\<rparr>,
                           \<lparr>sender = d, signal = RowsRemoved, slot = RefreshSceneSlot\<rparr>]
              | None \<Rightarrow> [])"
    by (simp add: s5_def connectTo_def split: option.splits)
  then show ?thesis by (simp add: r v c2)
qed

lemma connInv_step:
  assumes "connInv s" "call tpc docs c s = Inr s'"
  shows "connInv s'"
proof (cases c)
  case (SetMapDocument md)
  then have e: "setMapDocument docs md s = Inr s'" using assms by simp
  have "(case mMapDocument s of Some d \<Rightarrow> filter (\<lambda>c. sender c \<noteq> d) (connections s)
            | None \<Rightarrow> connections s) = []"
    using assms(1) by (simp add: connInv_def documentConnections_def split: option.splits)
  then show ?thesis
    using setMapDocument_connections [OF e] setMapDocument_frame [OF e]
    by (simp add: connInv_def documentConnections_def split: option.splits)
next
  case RefreshScene
  then show ?thesis using assms refreshScene_frame [of docs s s'] by (simp add: connInv_def)
next
  case (RepaintRegion region)
  then show ?thesis using assms repaintRegion_frame [of tpc docs region s s'] by (simp add: connInv_def)
next
  case (SetGridVisible v)
  then have "s' = setGridVisible v s" using assms by simp
  then show ?thesis using assms(1) by (simp add: setGridVisible_def connInv_def)
next
  case (SetBrushVisible v)
  then show ?thesis using assms setBrushVisible_frame [of docs v s s'] by (simp add: connInv_def)
next
  case UpdateBrushVisibility
  then show ?thesis using assms updateBrushVisibility_frame [of docs s s'] by (simp add: connInv_def)
next
  case (Event ty)
  then show ?thesis using assms event_frame [of docs ty s s'] by (simp add: connInv_def)
next
  case (MouseMoveEvent e)
  then show ?thesis using assms mouseMoveEvent_frame [of docs e s s'] by (simp add: connInv_def)
next
  case MousePressEvent
  then have "s' = mousePressEvent s" using assms by simp
  then show ?thesis using assms(1) by (simp add: mousePressEvent_def connInv_def)
next
  case MouseReleaseEvent
  then have "s' = mouseReleaseEvent s" using assms by simp
  then show ?thesis using assms(1) by (simp add: mouseReleaseEvent_def connInv_def)
qed

lemma connInv_repaintRegion_slot:
  assumes "connInv s" "c \<in> set (connections s)"
  shows "mMapDocument s = Some (sender c)
         \<and> (slot c = RepaintRegionSlot \<longrightarrow> signal c = RegionChanged)"
proof (cases "mMapDocument s")
  case None
  then show ?thesis using assms by (simp add: connInv_def)
next
  case (Some d)
  then have "c \<in> set (documentConnections d)" using assms by (simp add: connInv_def)
  then show ?thesis using Some by (auto simp: documentConnections_def)
qed

lemma reachable_connInv: "reachable s \<Longrightarrow> connInv s"
proof (induction rule: reachable.induct)
  case (constructed b)
  then show ?case by (simp add: connInv_def MapScene_new_def)
next
  case (called s tpc docs c s')
  then show ?case by (blast intro: connInv_step)
qed

text \<open>
  C2, as amended. With no document set, \<open>refreshScene\<close>, \<open>drawForeground\<close>,
  \<open>mouseMoveEvent\<close> and \<open>updateBrushVisibility\<close> return without dereferencing the
  document pointer. \<open>repaintRegion\<close> has no guard: it dereferences the pointer once for
  each rectangle of the region, so with no document it returns only for an empty
  region. It is the only operation of the scene that can dereference a null document.
  In every reachable state the connections of the scene are exactly those that
  \<open>setMapDocument\<close> makes for the document that is set, and none when no document is
  set: every connection comes from the document that is set, and the slot
  \<open>repaintRegion\<close> is connected to no other signal than \<open>regionChanged\<close>.
\<close>

theorem absent_document_guards:
  "(mMapDocument s = None \<longrightarrow>
       refreshScene docs s = Inr (s\<lparr>sceneItems := [BrushPtr], sceneRect := QRectF_null\<rparr>)
     \<and> drawForeground rnd docs painter rect s = Some (Inr painter)
     \<and> mouseMoveEvent docs ev s = Inr s
     \<and> updateBrushVisibility docs s = Inr (s\<lparr>mBrush := (mBrush s)\<lparr>brushVisible := False\<rparr>\<rparr>)
     \<and> repaintRegion tpc docs region s = (if region = [] then Inr s else Inl NullDereference))
   \<and> (call tpc docs c s = Inl NullDereference \<longrightarrow>
        mMapDocument s = None \<and> (\<exists>region. c = RepaintRegion region \<and> region \<noteq> []))
   \<and> (reachable s \<longrightarrow>
        connInv s
        \<and> (\<forall>c \<in> set (connections s).
              mMapDocument s = Some (sender c)
              \<and> (slot c = RepaintRegionSlot \<longrightarrow> signal c = RegionChanged)))"
proof -
  have "mMapDocument s = None \<longrightarrow>
       refreshScene docs s = Inr (s\<lparr>sceneItems := [BrushPtr], sceneRect := QRectF_null\<rparr>)
     \<and> drawForeground rnd docs painter rect s = Some (Inr painter)
     \<and> mouseMoveEvent docs ev s = Inr s
     \<and> updateBrushVisibility docs s = Inr (s\<lparr>mBrush := (mBrush s)\<lparr>brushVisible := False\<rparr>\<rparr>)
     \<and> repaintRegion tpc docs region s = (if region = [] then Inr s else Inl NullDereference)"
    by (simp add: refreshScene_def drawForeground_def mouseMoveEvent_def
          updateBrushVisibility_def ebind_def repaintRegion_no_document)
  moreover have "reachable s \<longrightarrow>
        connInv s
        \<and> (\<forall>c \<in> set (connections s).
              mMapDocument s = Some (sender c)
              \<and> (slot c = RepaintRegionSlot \<longrightarrow> signal c = RegionChanged))"
    using reachable_connInv [of s] connInv_repaintRegion_slot [of s] by blast
  ultimately show ?thesis using call_NullDereference [of tpc docs c s] by blast
qed

text \<open>
  C2 as stated fails for \<open>repaintRegion\<close>: on a scene without a document and a region
  of one rectangle it dereferences the null document pointer.
\<close>

theorem repaintRegion_counterexample:
  "mMapDocument (MapScene_new freshBrush) = None
   \<and> repaintRegion examplePixels docsA [oneTile] (MapScene_new freshBrush) = Inl NullDereference"
  by (simp add: MapScene_new_def)

theorem absent_document_guards_witness:
  "mMapDocument (MapScene_new freshBrush) = None
   \<and> mouseMoveEvent docsA \<lparr>scenePos = (5, 5), acceptedByItem = False\<rparr> (MapScene_new freshBrush)
       = Inr (MapScene_new freshBrush)
   \<and> repaintRegion examplePixels docsA [] (MapScene_new freshBrush) = Inr (MapScene_new freshBrush)
   \<and> reachable (MapScene_new freshBrush)
   \<and> connections (MapScene_new freshBrush) = []
   \<and> reachable sceneWithDoc
   \<and> mMapDocument sceneWithDoc = Some 0
   \<and> connections sceneWithDoc =
       [\<lparr>sender = 0, signal = RegionChanged, slot = RepaintRegionSlot\<rparr>,
        \<lparr>sender = 0, signal = RowsInserted, slot = RefreshSceneSlot\<rparr>,
        \<lparr>sender = 0, signal = RowsRemoved, slot = RefreshSceneSlot\<rparr>]"
proof -
  have a: "mMapDocument (MapScene_new freshBrush) = None" by (simp add: MapScene_new_def)
  have r: "reachable (MapScene_new freshBrush)" by (rule reachable.constructed)
  from absent_document_guards
         [of "MapScene_new freshBrush" docsA id blankPainter insideRect
            "\<lparr>scenePos = (5, 5), acceptedByItem = False\<rparr>" examplePixels "[]"]
    a r
  have 1: "mouseMoveEvent docsA \<lparr>scenePos = (5, 5), acceptedByItem = False\<rparr> (MapScene_new freshBrush)
       = Inr (MapScene_new freshBrush)"
    "repaintRegion examplePixels docsA [] (MapScene_new freshBrush) = Inr (MapScene_new freshBrush)"
    "connections (MapScene_new freshBrush) = []"
    by (simp_all add: connInv_def)
  from absent_document_guards [of sceneWithDoc docsA id blankPainter insideRect
            "\<lparr>scenePos = (5, 5), acceptedByItem = False\<rparr>" examplePixels "[]"]
    sceneWithDoc_reachable sceneWithDoc_document
  have 2: "connections sceneWithDoc =
       [\<lparr>sender = 0, signal = RegionChanged, slot = RepaintRegionSlot\<rparr>,
        \<lparr>sender = 0, signal = RowsInserted, slot = RefreshSceneSlot\<rparr>,
        \<lparr>sender = 0, signal = RowsRemoved, slot = RefreshSceneSlot\<rparr>]"
    by (simp add: connInv_def documentConnections_def)
  from a r 1 2 sceneWithDoc_reachable sceneWithDoc_document show ?thesis by simp
qed


section \<open>Snapping the mouse position to a tile\<close>

lemma trunc_nonneg: "0 \<le> r \<Longrightarrow> trunc_toward_zero r = \<lfloor>r\<rfloor>"
  by (simp add: trunc_toward_zero_def)

lemma sdiv_nonneg_pos:
  assumes "0 \<le> (a::int)" "0 < b"
  shows "a sdiv b = a div b"
proof (cases "a = 0")
  case True
  then show ?thesis by simp
next
  case False
  then have "0 < a" using assms(1) by simp
  then show ?thesis using assms(2) by (simp add: signed_divide_int_def)
qed

lemma sdiv_nonpos_pos:
  assumes "(a::int) \<le> 0" "0 < b"
  shows "a sdiv b = - ((- a) div b)"
proof (cases "a = 0")
  case True
  then show ?thesis by simp
next
  case False
  then have "a < 0" using assms(1) by simp
  then show ?thesis using assms(2) by (simp add: signed_divide_int_def)
qed

lemma trunc_sdiv:
  assumes "0 < b"
  shows "trunc_toward_zero r sdiv b = trunc_toward_zero (r / of_int b)"
proof (cases "0 \<le> r")
  case True
  then have "0 \<le> \<lfloor>r\<rfloor>" by simp
  then have "\<lfloor>r\<rfloor> sdiv b = \<lfloor>r\<rfloor> div b"
    using assms by (rule sdiv_nonneg_pos)
  also have "\<dots> = \<lfloor>r / of_int b\<rfloor>"
    using assms by (simp add: floor_divide_real_eq_div)
  finally show ?thesis using True assms by (simp add: trunc_toward_zero_def)
next
  case False
  then have neg: "r < 0" by simp
  then have q: "r / of_int b < 0" using assms by (simp add: divide_neg_pos)
  have c: "- \<lceil>r\<rceil> = \<lfloor>- r\<rfloor>" by (simp add: ceiling_def)
  have "\<lceil>r\<rceil> \<le> 0" using neg by linarith
  then have "\<lceil>r\<rceil> sdiv b = - ((- \<lceil>r\<rceil>) div b)"
    using assms by (rule sdiv_nonpos_pos)
  also have "\<dots> = - (\<lfloor>- r\<rfloor> div b)" by (simp only: c)
  also have "\<lfloor>- r\<rfloor> div b = \<lfloor>(- r) / of_int b\<rfloor>"
    using assms floor_divide_real_eq_div [of b "- r"] by simp
  also have "- \<lfloor>(- r) / of_int b\<rfloor> = \<lceil>r / of_int b\<rceil>"
    by (simp add: ceiling_def)
  finally show ?thesis using neg q by (simp add: trunc_toward_zero_def)
qed

lemma int_cast_in_range:
  assumes "- 2147483649 < r" "r < 2147483648"
  shows "int_cast r = Inr (trunc_toward_zero r)"
proof -
  have "- 2147483648 \<le> \<lceil>r\<rceil>" using assms(1) by linarith
  moreover have "\<lfloor>r\<rfloor> \<le> 2147483647" using assms(2) by linarith
  moreover have "\<lceil>r\<rceil> \<le> 0" if "r < 0" using that by linarith
  moreover have "0 \<le> \<lfloor>r\<rfloor>" if "0 \<le> r" using that by simp
  ultimately have "int_ok (trunc_toward_zero r)"
    by (auto simp: int_ok_def INT_MIN_def INT_MAX_def trunc_toward_zero_def)
  then show ?thesis by (simp add: int_cast_def)
qed

lemma div_le_dividend_int:
  assumes "0 \<le> (a::int)" "0 < b"
  shows "a div b \<le> a"
  using assms zdiv_mono2 [of a 1 b] by simp

lemma sdiv_pos_between:
  assumes "0 < (b::int)"
  shows "(0 \<le> a \<longrightarrow> 0 \<le> a sdiv b \<and> a sdiv b \<le> a)
       \<and> (a \<le> 0 \<longrightarrow> a \<le> a sdiv b \<and> a sdiv b \<le> 0)"
proof (intro conjI impI)
  assume p: "0 \<le> a"
  have "0 \<le> a div b" using p assms by (simp add: pos_imp_zdiv_nonneg_iff)
  then show "0 \<le> a sdiv b" using sdiv_nonneg_pos [OF p assms] by simp
  have "a div b \<le> a" using p assms by (rule div_le_dividend_int)
  then show "a sdiv b \<le> a" using sdiv_nonneg_pos [OF p assms] by simp
next
  assume n: "a \<le> 0"
  then have m: "0 \<le> - a" by simp
  have "0 \<le> (- a) div b" using m assms by (simp add: pos_imp_zdiv_nonneg_iff)
  then show "a sdiv b \<le> 0" using sdiv_nonpos_pos [OF n assms] by simp
  have "(- a) div b \<le> - a" using m assms by (rule div_le_dividend_int)
  then show "a \<le> a sdiv b" using sdiv_nonpos_pos [OF n assms] by simp
qed

lemma idiv_pos:
  assumes "0 < b" "int_ok a"
  shows "idiv a b = Inr (a sdiv b)"
proof -
  have "int_ok (a sdiv b)"
    using sdiv_pos_between [OF assms(1), of a] assms(2)
    unfolding int_ok_def INT_MIN_def INT_MAX_def by linarith
  then show ?thesis using assms(1) by (simp add: idiv_def ck_def)
qed

lemma int_cast_ok: "int_cast r = Inr v \<Longrightarrow> int_ok v"
  by (auto simp: int_cast_def split: if_splits)

text \<open>
  C1, as amended. For a mouse move that no item accepts, on a scene with a document
  whose tile width and height are positive, and at a position whose coordinates fit an
  \<open>int\<close>, \<open>mouseMoveEvent\<close> returns and the brush's tile position becomes
  \<open>(pos.x / tileWidth, pos.y / tileHeight)\<close> with each quotient rounded towards zero.
  For a coordinate that is not negative this is the floor of the quotient, the tile
  cell that contains the position.
\<close>

theorem mouseMoveEvent_snaps:
  assumes "mMapDocument s = Some d" "\<not> acceptedByItem ev"
    and "0 < tileWidth (docMap (docs d))" "0 < tileHeight (docMap (docs d))"
    and "- 2147483649 < fst (scenePos ev)" "fst (scenePos ev) < 2147483648"
    and "- 2147483649 < snd (scenePos ev)" "snd (scenePos ev) < 2147483648"
  shows "mouseMoveEvent docs ev s =
           Inr (s\<lparr>mBrush := (mBrush s)
                  \<lparr>brushTilePos :=
                     (trunc_toward_zero (fst (scenePos ev) / of_int (tileWidth (docMap (docs d)))),
                      trunc_toward_zero (snd (scenePos ev) / of_int (tileHeight (docMap (docs d)))))\<rparr>\<rparr>)
         \<and> (0 \<le> fst (scenePos ev) \<longrightarrow>
              trunc_toward_zero (fst (scenePos ev) / of_int (tileWidth (docMap (docs d))))
                = \<lfloor>fst (scenePos ev) / of_int (tileWidth (docMap (docs d)))\<rfloor>)
         \<and> (0 \<le> snd (scenePos ev) \<longrightarrow>
              trunc_toward_zero (snd (scenePos ev) / of_int (tileHeight (docMap (docs d))))
                = \<lfloor>snd (scenePos ev) / of_int (tileHeight (docMap (docs d)))\<rfloor>)"
proof -
  let ?x = "fst (scenePos ev)" and ?y = "snd (scenePos ev)"
  let ?tw = "tileWidth (docMap (docs d))" and ?th = "tileHeight (docMap (docs d))"
  have cx: "int_cast ?x = Inr (trunc_toward_zero ?x)"
    using assms(5,6) by (rule int_cast_in_range)
  have cy: "int_cast ?y = Inr (trunc_toward_zero ?y)"
    using assms(7,8) by (rule int_cast_in_range)
  have dx: "idiv (trunc_toward_zero ?x) ?tw = Inr (trunc_toward_zero (?x / of_int ?tw))"
    using idiv_pos [OF assms(3) int_cast_ok [OF cx]] trunc_sdiv [OF assms(3)] by simp
  have dy: "idiv (trunc_toward_zero ?y) ?th = Inr (trunc_toward_zero (?y / of_int ?th))"
    using idiv_pos [OF assms(4) int_cast_ok [OF cy]] trunc_sdiv [OF assms(4)] by simp
  have 1: "mouseMoveEvent docs ev s =
           Inr (s\<lparr>mBrush := (mBrush s)
                  \<lparr>brushTilePos := (trunc_toward_zero (?x / of_int ?tw),
                                    trunc_toward_zero (?y / of_int ?th))\<rparr>\<rparr>)"
    using assms(1,2) by (simp add: mouseMoveEvent_def Let_def cx cy dx dy ebind_Inr setTilePos_def)
  have 2: "0 \<le> ?x \<longrightarrow> trunc_toward_zero (?x / of_int ?tw) = \<lfloor>?x / of_int ?tw\<rfloor>"
    using assms(3) by (simp add: trunc_nonneg)
  have 3: "0 \<le> ?y \<longrightarrow> trunc_toward_zero (?y / of_int ?th) = \<lfloor>?y / of_int ?th\<rfloor>"
    using assms(4) by (simp add: trunc_nonneg)
  from 1 2 3 show ?thesis by blast
qed

text \<open>
  C1 as stated fails at a negative position: at \<open>(-5, -5)\<close> with tiles of 32 by 32
  the brush goes to tile \<open>(0, 0)\<close>, and the floor of the quotients is \<open>(-1, -1)\<close>.
\<close>

theorem negative_position_counterexample:
  "mMapDocument sceneWithDoc = Some 0
   \<and> \<not> acceptedByItem negativeMove
   \<and> map_sum id (\<lambda>s. brushTilePos (mBrush s)) (mouseMoveEvent docsA negativeMove sceneWithDoc)
       = Inr (0, 0)
   \<and> (\<lfloor>fst (scenePos negativeMove) / of_int (tileWidth (docMap (docsA 0)))\<rfloor>,
       \<lfloor>snd (scenePos negativeMove) / of_int (tileHeight (docMap (docsA 0)))\<rfloor>) = (- 1, - 1)"
  by (simp add: sceneWithDoc_document mouseMoveEvent_def negativeMove_def docsA_def exampleMap_def
        Let_def int_cast_def trunc_toward_zero_def int_ok_def INT_MIN_def INT_MAX_def
        idiv_def ck_def ebind_def signed_divide_int_def setTilePos_def)

theorem mouseMoveEvent_snaps_witness:
  "mMapDocument sceneWithDoc = Some 0
   \<and> \<not> acceptedByItem insideMove
   \<and> mouseMoveEvent docsA insideMove sceneWithDoc
       = Inr (sceneWithDoc\<lparr>mBrush := (mBrush sceneWithDoc)\<lparr>brushTilePos := (1, 2)\<rparr>\<rparr>)
   \<and> (\<lfloor>fst (scenePos insideMove) / of_int (tileWidth (docMap (docsA 0)))\<rfloor>,
       \<lfloor>snd (scenePos insideMove) / of_int (tileHeight (docMap (docsA 0)))\<rfloor>) = (1, 2)"
proof -
  have h: "\<not> acceptedByItem insideMove" "0 < tileWidth (docMap (docsA 0))"
    "0 < tileHeight (docMap (docsA 0))"
    "- 2147483649 < fst (scenePos insideMove)" "fst (scenePos insideMove) < 2147483648"
    "- 2147483649 < snd (scenePos insideMove)" "snd (scenePos insideMove) < 2147483648"
    by (simp_all add: insideMove_def docsA_def exampleMap_def)
  have v: "trunc_toward_zero (fst (scenePos insideMove) / of_int (tileWidth (docMap (docsA 0)))) = 1"
    "trunc_toward_zero (snd (scenePos insideMove) / of_int (tileHeight (docMap (docsA 0)))) = 2"
    "\<lfloor>fst (scenePos insideMove) / of_int (tileWidth (docMap (docsA 0)))\<rfloor> = 1"
    "\<lfloor>snd (scenePos insideMove) / of_int (tileHeight (docMap (docsA 0)))\<rfloor> = 2"
    by (simp_all add: insideMove_def docsA_def exampleMap_def trunc_toward_zero_def)
  from mouseMoveEvent_snaps [of sceneWithDoc 0 insideMove docsA,
         OF sceneWithDoc_document h(1) h(2) h(3) h(4) h(5) h(6) h(7)]
    sceneWithDoc_document h(1) v
  show ?thesis by simp
qed


section \<open>The items built by refreshScene\<close>

lemma numberFrom_append:
  "numberFrom z (xs @ ys) = numberFrom z xs @ numberFrom (z + int (length xs)) ys"
  by (induction xs arbitrary: z) (simp_all add: add.assoc)

lemma length_numberFrom: "length (numberFrom z xs) = length xs"
  by (induction xs arbitrary: z) simp_all

lemma numberFrom_kinds: "map (\<lambda>i. (itemKind i, itemPos i)) (numberFrom z xs) = xs"
  by (induction xs arbitrary: z) simp_all


lemma layerItemsSpec_simps:
  "layerItemsSpec m (TileLayerOf t) =
     [(TileLayerItem t, (of_int (layerX t * tileWidth m), of_int (layerY t * tileHeight m)))]"
  "layerItemsSpec m (ObjectGroupOf og) =
     map (\<lambda>object. (MapObjectItem object, (objectX object, objectY object))) (objects og)"
  "layerItemsSpec m OtherLayer = []"
  by (simp_all add: layerItemsSpec_def)

lemma itemCount_simps:
  "itemCount (TileLayerOf t) = 1"
  "itemCount (ObjectGroupOf og) = length (objects og)"
  "itemCount OtherLayer = 0"
  by (simp_all add: itemCount_def)

lemma length_layerItemsSpec: "length (layerItemsSpec m layer) = itemCount layer"
  by (simp add: layerItemsSpec_def itemCount_def split: Layer.splits)

lemma length_concat_layerItemsSpec:
  "length (concat (map (layerItemsSpec m) ls)) = sum_list (map itemCount ls)"
  by (induction ls) (simp_all add: length_layerItemsSpec)

lemma addObjectItems_Inr:
  "addObjectItems os (z, its) = Inr st' \<Longrightarrow>
     st' = (z + int (length os),
            its @ numberFrom z (map (\<lambda>object. (MapObjectItem object, (objectX object, objectY object))) os))"
proof (induction os arbitrary: z its)
  case Nil
  then show ?case by simp
next
  case (Cons object rest)
  from Cons.prems have
    "addObjectItems rest
       (z + 1, its @ [\<lparr>itemKind = MapObjectItem object,
                        itemPos = (objectX object, objectY object),
                        itemZ = of_int z\<rparr>]) = Inr st'"
    by (auto simp: ebind_eq_Inr iadd_def ck_eq_Inr)
  from Cons.IH [OF this] show ?case by simp
qed

lemma addObjectItems_returns:
  "INT_MIN \<le> z \<Longrightarrow> z + int (length os) \<le> INT_MAX \<Longrightarrow>
     \<exists>st'. addObjectItems os (z, its) = Inr st'"
proof (induction os arbitrary: z its)
  case Nil
  then show ?case by simp
next
  case (Cons object rest)
  then have ok: "int_ok (z + 1)" by (simp add: int_ok_def)
  have "INT_MIN \<le> z + 1" "z + 1 + int (length rest) \<le> INT_MAX" using Cons.prems by simp_all
  from Cons.IH [OF this] show ?case using ok by (simp add: iadd_def ck_def ebind_Inr)
qed

lemma addLayerItems_Inr:
  "addLayerItems m ls (z, its) = Inr st' \<Longrightarrow>
     st' = (z + int (length (concat (map (layerItemsSpec m) ls))),
            its @ numberFrom z (concat (map (layerItemsSpec m) ls)))"
proof (induction ls arbitrary: z its)
  case Nil
  then show ?case by simp
next
  case (Cons layer rest)
  show ?case
  proof (cases layer)
    case (TileLayerOf t)
    let ?item = "\<lparr>itemKind = TileLayerItem t,
                   itemPos = (of_int (layerX t * tileWidth m), of_int (layerY t * tileHeight m)),
                   itemZ = of_int z\<rparr>"
    from Cons.prems TileLayerOf have "addLayerItems m rest (z + 1, its @ [?item]) = Inr st'"
      by (auto simp: dynamic_cast_TileLayer_def ebind_eq_Inr iadd_def imul_def ck_eq_Inr)
    from Cons.IH [OF this] show ?thesis
      using TileLayerOf by (simp add: layerItemsSpec_simps)
  next
    case (ObjectGroupOf og)
    from Cons.prems ObjectGroupOf obtain st1 where
      o: "addObjectItems (objects og) (z, its) = Inr st1" and r: "addLayerItems m rest st1 = Inr st'"
      by (auto simp: dynamic_cast_TileLayer_def dynamic_cast_ObjectGroup_def ebind_eq_Inr)
    note st1 = addObjectItems_Inr [OF o]
    from r have "addLayerItems m rest (z + int (length (objects og)),
        its @ numberFrom z (map (\<lambda>object. (MapObjectItem object, (objectX object, objectY object))) (objects og))) = Inr st'"
      by (simp add: st1)
    from Cons.IH [OF this] show ?thesis
      using ObjectGroupOf by (simp add: layerItemsSpec_simps numberFrom_append add.assoc)
  next
    case OtherLayer
    from Cons.prems OtherLayer have "addLayerItems m rest (z, its) = Inr st'"
      by (simp add: dynamic_cast_TileLayer_def dynamic_cast_ObjectGroup_def)
    from Cons.IH [OF this] show ?thesis
      using OtherLayer by (simp add: layerItemsSpec_simps)
  qed
qed

lemma addLayerItems_returns:
  assumes "list_all (\<lambda>layer. case layer of
                    TileLayerOf t \<Rightarrow>
                      int_ok (layerX t * tileWidth m) \<and> int_ok (layerY t * tileHeight m)
                  | _ \<Rightarrow> True) ls"
    and "INT_MIN \<le> z" "z + int (sum_list (map itemCount ls)) \<le> INT_MAX"
  shows "\<exists>st'. addLayerItems m ls (z, its) = Inr st'"
  using assms
proof (induction ls arbitrary: z its)
  case Nil
  then show ?case by simp
next
  case (Cons layer rest)
  show ?case
  proof (cases layer)
    case (TileLayerOf t)
    have ok: "int_ok (z + 1)" "int_ok (layerX t * tileWidth m)" "int_ok (layerY t * tileHeight m)"
      using Cons.prems TileLayerOf by (simp_all add: int_ok_def itemCount_simps)
    have "INT_MIN \<le> z + 1" "z + 1 + int (sum_list (map itemCount rest)) \<le> INT_MAX"
      using Cons.prems TileLayerOf by (simp_all add: itemCount_simps)
    from Cons.IH [OF _ this] Cons.prems(1) show ?thesis
      using TileLayerOf ok
      by (simp add: dynamic_cast_TileLayer_def imul_def iadd_def ck_def ebind_Inr)
  next
    case (ObjectGroupOf og)
    have "z + int (length (objects og)) \<le> INT_MAX"
      using Cons.prems ObjectGroupOf by (simp add: itemCount_simps)
    from addObjectItems_returns [OF Cons.prems(2) this] obtain st1 where
      o: "addObjectItems (objects og) (z, its) = Inr st1" by blast
    note st1 = addObjectItems_Inr [OF o]
    have "INT_MIN \<le> z + int (length (objects og))"
      "z + int (length (objects og)) + int (sum_list (map itemCount rest)) \<le> INT_MAX"
      using Cons.prems ObjectGroupOf by (simp_all add: itemCount_simps)
    from Cons.IH [OF _ this] Cons.prems(1) show ?thesis
      using ObjectGroupOf o st1
      by (simp add: dynamic_cast_TileLayer_def dynamic_cast_ObjectGroup_def ebind_Inr)
  next
    case OtherLayer
    have "INT_MIN \<le> z" "z + int (sum_list (map itemCount rest)) \<le> INT_MAX"
      using Cons.prems OtherLayer by (simp_all add: itemCount_simps)
    from Cons.IH [OF _ this] Cons.prems(1) show ?thesis
      using OtherLayer
      by (simp add: dynamic_cast_TileLayer_def dynamic_cast_ObjectGroup_def)
  qed
qed

lemma refreshScene_items:
  assumes "mMapDocument s = Some d" "refreshScene docs s = Inr s'"
  shows "sceneItems s' =
           BrushPtr
           # map Owned (numberFrom 0 (concat (map (layerItemsSpec (docMap (docs d)))
                                                (layers (docMap (docs d))))))
           @ [Owned (selectionItem d)]"
proof -
  let ?m = "docMap (docs d)"
  from assms obtain z its where
    a: "addLayerItems ?m (layers ?m) (0, []) = Inr (z, its)"
    and s': "sceneItems s' = BrushPtr # map Owned its @ [Owned (selectionItem d)]"
    by (auto simp: refreshScene_def Let_def ebind_eq_Inr selectionItem_def split: prod.splits)
  from addLayerItems_Inr [OF a] s' show ?thesis by simp
qed

lemma refreshScene_returns:
  assumes "mMapDocument s = Some d" "sceneFitsInt (docMap (docs d))"
  shows "\<exists>s'. refreshScene docs s = Inr s'"
proof -
  let ?m = "docMap (docs d)"
  have "INT_MIN \<le> 0" "0 + int (sum_list (map itemCount (layers ?m))) \<le> INT_MAX"
    using assms(2) by (simp_all add: sceneFitsInt_def INT_MIN_def)
  from addLayerItems_returns [OF _ this, of ?m "[]"] assms(2)
  obtain st' where "addLayerItems ?m (layers ?m) (0, []) = Inr st'"
    by (auto simp: sceneFitsInt_def)
  then show ?thesis using assms
    by (cases st') (simp add: refreshScene_def Let_def sceneFitsInt_def imul_def iadd_def ck_def ebind_Inr)
qed


text \<open>
  C4. With a document set, \<open>refreshScene\<close> returns whenever its products and its item
  counter stay within \<open>int\<close>, and when it returns the scene holds the brush item, then
  the items of the map's layers in layer order, then the selection item: one item for
  each tile layer, at the layer's tile coordinates multiplied by the map's tile width and
  height, one item for each object of each object group, at the object's coordinates,
  and no item for a layer of another kind.
\<close>

theorem refreshScene_builds_items:
  assumes "mMapDocument s = Some d"
  shows "(sceneFitsInt (docMap (docs d)) \<longrightarrow> (\<exists>s'. refreshScene docs s = Inr s'))
       \<and> (\<forall>s'. refreshScene docs s = Inr s' \<longrightarrow>
            (\<exists>its. sceneItems s' = BrushPtr # map Owned its @ [Owned (selectionItem d)]
               \<and> map (\<lambda>i. (itemKind i, itemPos i)) its
                   = concat (map (layerItemsSpec (docMap (docs d))) (layers (docMap (docs d))))
               \<and> length its = sum_list (map itemCount (layers (docMap (docs d))))))"
proof (intro conjI impI allI)
  assume "sceneFitsInt (docMap (docs d))"
  with assms show "\<exists>s'. refreshScene docs s = Inr s'" by (rule refreshScene_returns)
next
  fix s'
  assume r: "refreshScene docs s = Inr s'"
  let ?spec = "concat (map (layerItemsSpec (docMap (docs d))) (layers (docMap (docs d))))"
  have "sceneItems s' = BrushPtr # map Owned (numberFrom 0 ?spec) @ [Owned (selectionItem d)]"
    using assms r by (rule refreshScene_items)
  moreover have "map (\<lambda>i. (itemKind i, itemPos i)) (numberFrom 0 ?spec) = ?spec"
    by (rule numberFrom_kinds)
  moreover have "length (numberFrom 0 ?spec) = sum_list (map itemCount (layers (docMap (docs d))))"
    by (simp add: length_numberFrom length_concat_layerItemsSpec)
  ultimately show "\<exists>its. sceneItems s' = BrushPtr # map Owned its @ [Owned (selectionItem d)]
               \<and> map (\<lambda>i. (itemKind i, itemPos i)) its = ?spec
               \<and> length its = sum_list (map itemCount (layers (docMap (docs d))))"
    by blast
qed

lemma sceneWithDoc_refresh: "refreshScene docsA sceneWithDoc = Inr sceneWithDoc"
  by (simp add: sceneWithDoc_def eval_defs)

lemma sceneWithDoc_items:
  "sceneItems sceneWithDoc =
     [BrushPtr,
      Owned \<lparr>itemKind = TileLayerItem \<lparr>layerX = 1, layerY = 2\<rparr>, itemPos = (32, 64), itemZ = 0\<rparr>,
      Owned \<lparr>itemKind = MapObjectItem \<lparr>objectX = 10, objectY = 20\<rparr>, itemPos = (10, 20), itemZ = 1\<rparr>,
      Owned \<lparr>itemKind = MapObjectItem \<lparr>objectX = 30, objectY = 40\<rparr>, itemPos = (30, 40), itemZ = 2\<rparr>,
      Owned (selectionItem 0)]"
  by (simp add: sceneWithDoc_def eval_defs selectionItem_def)

lemma exampleMap_fits: "sceneFitsInt (docMap (docsA 0))"
  by (simp add: sceneFitsInt_def docsA_def exampleMap_def int_ok_def INT_MIN_def INT_MAX_def
        itemCount_simps)

theorem refreshScene_builds_items_witness:
  "mMapDocument sceneWithDoc = Some 0
   \<and> sceneFitsInt (docMap (docsA 0))
   \<and> refreshScene docsA sceneWithDoc = Inr sceneWithDoc
   \<and> sceneItems sceneWithDoc =
       [BrushPtr,
        Owned \<lparr>itemKind = TileLayerItem \<lparr>layerX = 1, layerY = 2\<rparr>, itemPos = (32, 64), itemZ = 0\<rparr>,
        Owned \<lparr>itemKind = MapObjectItem \<lparr>objectX = 10, objectY = 20\<rparr>, itemPos = (10, 20), itemZ = 1\<rparr>,
        Owned \<lparr>itemKind = MapObjectItem \<lparr>objectX = 30, objectY = 40\<rparr>, itemPos = (30, 40), itemZ = 2\<rparr>,
        Owned (selectionItem 0)]
   \<and> sum_list (map itemCount (layers (docMap (docsA 0)))) = 3"
proof -
  have c: "sum_list (map itemCount (layers (docMap (docsA 0)))) = 3"
    by (simp add: docsA_def exampleMap_def itemCount_simps)
  from refreshScene_builds_items [of sceneWithDoc 0 docsA, OF sceneWithDoc_document]
    sceneWithDoc_document exampleMap_fits sceneWithDoc_refresh sceneWithDoc_items c
  show ?thesis by simp
qed

section \<open>The z-order of the scene\<close>










section \<open>The grid drawn by drawForeground\<close>

lemma iadd_eq_Inr: "iadd a b = Inr c \<longleftrightarrow> int_ok (a + b) \<and> c = a + b"
  by (simp add: iadd_def ck_eq_Inr)

lemma forLoop_terminates_pos:
  assumes "0 < step"
  shows "\<exists>r. forLoop body step stop v st = Some r"
proof (induction "nat (stop - v)" arbitrary: v st rule: less_induct)
  case less
  show ?case
  proof (cases "v < stop")
    case False
    then show ?thesis by (subst forLoop.simps) simp
  next
    case True
    show ?thesis
    proof (cases "body v st")
      case (Inl e)
      then show ?thesis using True by (subst forLoop.simps) simp
    next
      case (Inr st1)
      show ?thesis
      proof (cases "iadd v step")
        case (Inl e)
        then show ?thesis using True Inr by (subst forLoop.simps) simp
      next
        case inr: (Inr v')
        then have v': "v' = v + step" by (simp add: iadd_eq_Inr)
        then have "nat (stop - v') < nat (stop - v)" using assms True by simp
        from less [OF this, of st1] show ?thesis
          using True Inr inr by (subst forLoop.simps) simp
      qed
    qed
  qed
qed

lemma forLoop_terminates_neg:
  assumes "step < 0" "int_ok v"
  shows "\<exists>r. forLoop body step stop v st = Some r"
  using assms(2)
proof (induction "nat (v - INT_MIN)" arbitrary: v st rule: less_induct)
  case less
  show ?case
  proof (cases "v < stop")
    case False
    then show ?thesis by (subst forLoop.simps) simp
  next
    case True
    show ?thesis
    proof (cases "body v st")
      case (Inl e)
      then show ?thesis using True by (subst forLoop.simps) simp
    next
      case (Inr st1)
      show ?thesis
      proof (cases "iadd v step")
        case (Inl e)
        then show ?thesis using True Inr by (subst forLoop.simps) simp
      next
        case inr: (Inr v')
        then have v': "v' = v + step" "int_ok v'" by (simp_all add: iadd_eq_Inr)
        then have "nat (v' - INT_MIN) < nat (v - INT_MIN)"
          using assms(1) less.prems by (simp add: int_ok_def)
        from less.hyps [OF this v'(2), of st1] show ?thesis
          using True Inr inr by (subst forLoop.simps) simp
      qed
    qed
  qed
qed

lemma forLoop_values:
  assumes "\<And>x st. body x st = Inr (g x st)"
  shows "0 < step \<Longrightarrow> forLoop body step stop v st = Some (Inr st') \<Longrightarrow>
           st' = fold g (loopValues step stop v) st"
proof (induction step stop v arbitrary: st rule: loopValues.induct)
  case (1 step stop v)
  show ?case
  proof (cases "v < stop")
    case False
    then have "forLoop body step stop v st = Some (Inr st)" by (subst forLoop.simps) simp
    then show ?thesis using "1.prems" False by (simp add: loopValues.simps)
  next
    case True
    have e: "forLoop body step stop v st =
          (case iadd v step of Inl e \<Rightarrow> Some (Inl e)
           | Inr v' \<Rightarrow> forLoop body step stop v' (g v st))"
      using True by (subst forLoop.simps) (simp add: assms)
    have r: "forLoop body step stop (v + step) (g v st) = Some (Inr st')"
    proof (cases "iadd v step")
      case (Inl err)
      then have "forLoop body step stop v st = Some (Inl err)" using e by simp
      then show ?thesis using "1.prems" by simp
    next
      case (Inr v')
      then have "v' = v + step" by (simp add: iadd_eq_Inr)
      then show ?thesis using e Inr "1.prems" by simp
    qed
    have "st' = fold g (loopValues step stop (v + step)) (g v st)"
      using "1.IH" [of "g v st"] "1.prems"(1) True r by simp
    then show ?thesis using "1.prems"(1) True
      by (simp add: loopValues.simps [of step stop v])
  qed
qed

lemma forLoop_body_fails:
  assumes "\<And>x st. body x st = Inl e"
  shows "forLoop body step stop v st = (if v < stop then Some (Inl e) else Some (Inr st))"
  by (subst forLoop.simps) (simp add: assms)

lemma loopValues_set:
  assumes "0 < step"
  shows "set (loopValues step stop v) = {x. v \<le> x \<and> x < stop \<and> step dvd (x - v)}"
  using assms
proof (induction step stop v rule: loopValues.induct)
  case (1 step stop v)
  show ?case
  proof (cases "v < stop")
    case False
    then show ?thesis by (auto simp: loopValues.simps [of step stop v])
  next
    case True
    have ih: "set (loopValues step stop (v + step))
                = {x. v + step \<le> x \<and> x < stop \<and> step dvd (x - (v + step))}"
      using "1.IH" "1.prems" True by simp
    have "{x. v \<le> x \<and> x < stop \<and> step dvd (x - v)}
            = insert v {x. v + step \<le> x \<and> x < stop \<and> step dvd (x - (v + step))}"
    proof (intro set_eqI iffI)
      fix x assume "x \<in> {x. v \<le> x \<and> x < stop \<and> step dvd (x - v)}"
      then have x: "v \<le> x" "x < stop" "step dvd (x - v)" by simp_all
      show "x \<in> insert v {x. v + step \<le> x \<and> x < stop \<and> step dvd (x - (v + step))}"
      proof (cases "x = v")
        case True
        then show ?thesis by simp
      next
        case False
        then have "0 < x - v" using x(1) by simp
        then have "step \<le> x - v" using x(3) by (rule zdvd_imp_le [rotated])
        moreover have "step dvd (x - (v + step))"
        proof -
          have "step dvd (x - v) - step" using x(3) by (rule dvd_diff) simp
          moreover have "(x - v) - step = x - (v + step)" by simp
          ultimately show ?thesis by (simp only:)
        qed
        ultimately show ?thesis using x(2) by simp
      qed
    next
      fix x assume "x \<in> insert v {x. v + step \<le> x \<and> x < stop \<and> step dvd (x - (v + step))}"
      then consider "x = v" | "v + step \<le> x" "x < stop" "step dvd (x - (v + step))" by blast
      then show "x \<in> {x. v \<le> x \<and> x < stop \<and> step dvd (x - v)}"
      proof cases
        case 1
        then show ?thesis using True by simp
      next
        case 2
        have "step dvd (x - (v + step)) + step" using 2(3) by (rule dvd_add) simp
        moreover have "(x - (v + step)) + step = x - v" by simp
        ultimately have "step dvd (x - v)" by (simp only:)
        then show ?thesis using 2 "1.prems" by simp
      qed
    qed
    then show ?thesis
      using True "1.prems" ih by (simp add: loopValues.simps [of step stop v])
  qed
qed

lemma loopValues_sorted:
  "sorted (loopValues step stop v) \<and> distinct (loopValues step stop v)"
proof (induction step stop v rule: loopValues.induct)
  case (1 step stop v)
  show ?case
  proof (cases "0 < step \<and> v < stop")
    case False
    then have "loopValues step stop v = []"
      by (subst loopValues.simps) auto
    then show ?thesis by simp
  next
    case True
    then have gt: "\<forall>x \<in> set (loopValues step stop (v + step)). v < x"
      using loopValues_set [of step stop "v + step"] by auto
    have ih: "sorted (loopValues step stop (v + step))" "distinct (loopValues step stop (v + step))"
      using "1.IH" True by simp_all
    have lv: "loopValues step stop v = v # loopValues step stop (v + step)"
      using True by (simp add: loopValues.simps [of step stop v])
    show ?thesis unfolding lv using gt ih by (auto simp: less_imp_le)
  qed
qed

lemma fold_drawLine_vertical:
  "fold (\<lambda>x. drawLine x t x b) xs p
     = p\<lparr>drawnLines := drawnLines p
           @ map (\<lambda>x. \<lparr>lineX1 = x, lineY1 = t, lineX2 = x, lineY2 = b\<rparr>) xs\<rparr>"
  by (induction xs arbitrary: p) (simp_all add: drawLine_def)

lemma fold_drawLine_horizontal:
  "fold (\<lambda>y. drawLine l y r y) ys p
     = p\<lparr>drawnLines := drawnLines p
           @ map (\<lambda>y. \<lparr>lineX1 = l, lineY1 = y, lineX2 = r, lineY2 = y\<rparr>) ys\<rparr>"
  by (induction ys arbitrary: p) (simp_all add: drawLine_def)


lemma int_cast_eq_Inr: "int_cast r = Inr v \<longleftrightarrow> int_ok (trunc_toward_zero r) \<and> v = trunc_toward_zero r"
  by (auto simp: int_cast_def)

lemma verticalLine_cases:
  "(\<exists>e. \<forall>x p. verticalLine rect endY x p = Inl e)
   \<or> (\<forall>x p. verticalLine rect endY x p
               = Inr (drawLine x (trunc_toward_zero (rectTop rect)) x (endY - 1) p))"
proof (cases "int_cast (rectTop rect)")
  case (Inl e)
  then show ?thesis by (simp add: verticalLine_def ebind_Inl)
next
  case top: (Inr t)
  then have t: "t = trunc_toward_zero (rectTop rect)" by (simp add: int_cast_eq_Inr)
  show ?thesis
  proof (cases "isub endY 1")
    case (Inl e)
    then show ?thesis using top by (simp add: verticalLine_def ebind_Inl ebind_Inr)
  next
    case (Inr b)
    then have "b = endY - 1" by (simp add: isub_def ck_eq_Inr)
    then show ?thesis using top t Inr by (simp add: verticalLine_def ebind_Inr)
  qed
qed

lemma horizontalLine_cases:
  "(\<exists>e. \<forall>y p. horizontalLine rect endX y p = Inl e)
   \<or> (\<forall>y p. horizontalLine rect endX y p
               = Inr (drawLine (trunc_toward_zero (rectLeft rect)) y (endX - 1) y p))"
proof (cases "int_cast (rectLeft rect)")
  case (Inl e)
  then show ?thesis by (simp add: horizontalLine_def ebind_Inl)
next
  case left: (Inr l)
  then have l: "l = trunc_toward_zero (rectLeft rect)" by (simp add: int_cast_eq_Inr)
  show ?thesis
  proof (cases "isub endX 1")
    case (Inl e)
    then show ?thesis using left by (simp add: horizontalLine_def ebind_Inl ebind_Inr)
  next
    case (Inr r)
    then have "r = endX - 1" by (simp add: isub_def ck_eq_Inr)
    then show ?thesis using left l Inr by (simp add: horizontalLine_def ebind_Inr)
  qed
qed

lemma vertical_loop:
  assumes "0 < tw" "forLoop (verticalLine rect endY) tw endX startX p = Some (Inr p1)"
  shows "p1 = p\<lparr>drawnLines := drawnLines p
                 @ map (\<lambda>x. \<lparr>lineX1 = x, lineY1 = trunc_toward_zero (rectTop rect),
                              lineX2 = x, lineY2 = endY - 1\<rparr>)
                     (loopValues tw endX startX)\<rparr>"
proof -
  from verticalLine_cases [of rect endY] show ?thesis
  proof
    assume "\<exists>e. \<forall>x p. verticalLine rect endY x p = Inl e"
    then obtain e where e: "\<And>x p. verticalLine rect endY x p = Inl e" by blast
    from forLoop_body_fails [of "verticalLine rect endY" e tw endX startX p, OF e] assms(2)
    have "\<not> startX < endX" "p1 = p" by (auto split: if_splits)
    moreover from this have "loopValues tw endX startX = []"
      by (simp add: loopValues.simps [of tw endX startX])
    ultimately show ?thesis by simp
  next
    assume "\<forall>x p. verticalLine rect endY x p
               = Inr (drawLine x (trunc_toward_zero (rectTop rect)) x (endY - 1) p)"
    then have b: "\<And>x p. verticalLine rect endY x p
               = Inr (drawLine x (trunc_toward_zero (rectTop rect)) x (endY - 1) p)" by blast
    from forLoop_values [of "verticalLine rect endY"
           "\<lambda>x. drawLine x (trunc_toward_zero (rectTop rect)) x (endY - 1)", OF b assms(1) assms(2)]
    show ?thesis by (simp add: fold_drawLine_vertical)
  qed
qed

lemma horizontal_loop:
  assumes "0 < th" "forLoop (horizontalLine rect endX) th endY startY p = Some (Inr p1)"
  shows "p1 = p\<lparr>drawnLines := drawnLines p
                 @ map (\<lambda>y. \<lparr>lineX1 = trunc_toward_zero (rectLeft rect), lineY1 = y,
                              lineX2 = endX - 1, lineY2 = y\<rparr>)
                     (loopValues th endY startY)\<rparr>"
proof -
  from horizontalLine_cases [of rect endX] show ?thesis
  proof
    assume "\<exists>e. \<forall>y p. horizontalLine rect endX y p = Inl e"
    then obtain e where e: "\<And>y p. horizontalLine rect endX y p = Inl e" by blast
    from forLoop_body_fails [of "horizontalLine rect endX" e th endY startY p, OF e] assms(2)
    have "\<not> startY < endY" "p1 = p" by (auto split: if_splits)
    moreover from this have "loopValues th endY startY = []"
      by (simp add: loopValues.simps [of th endY startY])
    ultimately show ?thesis by simp
  next
    assume "\<forall>y p. horizontalLine rect endX y p
               = Inr (drawLine (trunc_toward_zero (rectLeft rect)) y (endX - 1) y p)"
    then have b: "\<And>y p. horizontalLine rect endX y p
               = Inr (drawLine (trunc_toward_zero (rectLeft rect)) y (endX - 1) y p)" by blast
    from forLoop_values [of "horizontalLine rect endX"
           "\<lambda>y. drawLine (trunc_toward_zero (rectLeft rect)) y (endX - 1) y", OF b assms(1) assms(2)]
    show ?thesis by (simp add: fold_drawLine_horizontal)
  qed
qed

lemma cast_quot_eq_Inr:
  "cast_quot rnd a b = Inr q \<longleftrightarrow>
     b \<noteq> 0 \<and> int_ok (trunc_toward_zero (rnd (a / of_int b)))
     \<and> q = trunc_toward_zero (rnd (a / of_int b))"
  by (auto simp: cast_quot_def int_cast_eq_Inr)

lemma imul_eq_Inr: "imul a b = Inr c \<longleftrightarrow> int_ok (a * b) \<and> c = a * b"
  by (simp add: imul_def ck_eq_Inr)

lemma gridBounds_Inr:
  assumes "gridBounds rnd m rect = Inr (startX, startY, endX, endY)"
  shows "tileWidth m \<noteq> 0" "tileHeight m \<noteq> 0" "int_ok startX" "int_ok startY"
    "startX = gridStart rnd (rectX rect) (tileWidth m)"
    "startY = gridStart rnd (rectY rect) (tileHeight m)"
    "endX = gridEnd (rectRight rnd rect) (mapWidth m) (tileWidth m)"
    "endY = gridEnd (rectBottom rnd rect) (mapHeight m) (tileHeight m)"
  using assms
  unfolding gridBounds_def ebind_eq_Inr cast_quot_eq_Inr imul_eq_Inr iadd_eq_Inr int_cast_eq_Inr
    gridStart_def gridEnd_def
  by auto


lemma forLoop_terminates:
  assumes "step \<noteq> 0" "int_ok v"
  shows "\<exists>r. forLoop body step stop v st = Some r"
proof (cases "0 < step")
  case True
  then show ?thesis by (rule forLoop_terminates_pos)
next
  case False
  then have "step < 0" using assms(1) by simp
  then show ?thesis using assms(2) by (rule forLoop_terminates_neg)
qed

lemma drawForeground_terminates:
  "\<exists>r. drawForeground rnd docs painter rect s = Some r"
proof (cases "mMapDocument s")
  case None
  then show ?thesis by (simp add: drawForeground_def)
next
  case (Some d)
  let ?m = "docMap (docs d)"
  show ?thesis
  proof (cases "mGridVisible s")
    case False
    then show ?thesis using Some by (simp add: drawForeground_def)
  next
    case True
    show ?thesis
    proof (cases "gridBounds rnd ?m rect")
      case (Inl e)
      then show ?thesis using Some True by (simp add: drawForeground_def)
    next
      case (Inr b)
      obtain startX startY endX endY where b: "b = (startX, startY, endX, endY)"
        by (cases b) auto
      note g = gridBounds_Inr [OF Inr [unfolded b]]
      obtain r1 where r1: "forLoop (verticalLine rect endY) (tileWidth ?m) endX startX
                             (painter\<lparr>pen := Black, opacity := 1 / 2\<rparr>) = Some r1"
        using forLoop_terminates [OF g(1) g(3), of "verticalLine rect endY" endX
                "painter\<lparr>pen := Black, opacity := 1 / 2\<rparr>"] by blast
      show ?thesis
      proof (cases r1)
        case (Inl e)
        then show ?thesis using Some True Inr b r1 by (simp add: drawForeground_def)
      next
        case p: (Inr p)
        obtain r2 where "forLoop (horizontalLine rect endX) (tileHeight ?m) endY startY p = Some r2"
          using forLoop_terminates [OF g(2) g(4), of "horizontalLine rect endX" endY p] by blast
        then show ?thesis using Some True Inr b r1 p by (simp add: drawForeground_def)
      qed
    qed
  qed
qed

lemma gridStart_dvd: "tileSize dvd gridStart rnd a tileSize"
  by (simp add: gridStart_def)

lemma loopValues_multiples:
  assumes "0 < step" "step dvd v"
  shows "set (loopValues step stop v) = {x. v \<le> x \<and> x < stop \<and> step dvd x}"
proof -
  have "step dvd (x - v) \<longleftrightarrow> step dvd x" for x
    using assms(2) by (simp add: dvd_diff_left_iff)
  then show ?thesis using loopValues_set [OF assms(1), of stop v] by simp
qed

text \<open>
  C6, as amended. \<open>drawForeground\<close> draws nothing unless a document is set and the
  grid-visible flag is true, and it always ends. When it draws, for positive tile sizes,
  it sets the pen and draws first the vertical and then the horizontal lines. The
  vertical lines lie, in increasing order, at exactly the multiples \<open>x\<close> of the tile
  width with \<open>startX \<le> x < endX\<close>, where \<open>startX\<close> is \<open>(int) (rect.x / tileWidth)\<close>
  times the tile width and \<open>endX\<close> the smaller of \<open>(int) rect.right\<close> and the map width
  times the tile width plus 1; each runs from \<open>y = (int) rect.top\<close> to \<open>y = endY - 1\<close>.
  The horizontal lines are the same with the roles of x and y exchanged. So the
  coordinate at which a line lies and the end of a line never exceed the map's pixel
  extent; the start of a line, \<open>(int) rect.top\<close> or \<open>(int) rect.left\<close>, is not clamped.
\<close>

theorem drawForeground_grid:
  "(mMapDocument s = None \<or> \<not> mGridVisible s \<longrightarrow>
      drawForeground rnd docs painter rect s = Some (Inr painter))
   \<and> (\<exists>r. drawForeground rnd docs painter rect s = Some r)
   \<and> (mMapDocument s = Some d \<and> mGridVisible s
        \<and> 0 < tileWidth (docMap (docs d)) \<and> 0 < tileHeight (docMap (docs d))
        \<and> drawForeground rnd docs painter rect s = Some (Inr p') \<longrightarrow>
        (let m = docMap (docs d);
             startX = gridStart rnd (rectX rect) (tileWidth m);
             startY = gridStart rnd (rectY rect) (tileHeight m);
             endX = gridEnd (rectRight rnd rect) (mapWidth m) (tileWidth m);
             endY = gridEnd (rectBottom rnd rect) (mapHeight m) (tileHeight m);
             xs = loopValues (tileWidth m) endX startX;
             ys = loopValues (tileHeight m) endY startY
         in p' = painter
                 \<lparr>pen := Black, opacity := 1 / 2,
                  drawnLines := drawnLines painter
                    @ map (\<lambda>x. \<lparr>lineX1 = x, lineY1 = trunc_toward_zero (rectTop rect),
                                  lineX2 = x, lineY2 = endY - 1\<rparr>) xs
                    @ map (\<lambda>y. \<lparr>lineX1 = trunc_toward_zero (rectLeft rect), lineY1 = y,
                                  lineX2 = endX - 1, lineY2 = y\<rparr>) ys\<rparr>
            \<and> sorted xs \<and> distinct xs \<and> sorted ys \<and> distinct ys
            \<and> set xs = {x. startX \<le> x \<and> x < endX \<and> tileWidth m dvd x}
            \<and> set ys = {y. startY \<le> y \<and> y < endY \<and> tileHeight m dvd y}
            \<and> endX \<le> trunc_toward_zero (rectRight rnd rect)
            \<and> endX \<le> mapWidth m * tileWidth m + 1
            \<and> endY \<le> trunc_toward_zero (rectBottom rnd rect)
            \<and> endY \<le> mapHeight m * tileHeight m + 1))"
proof (intro conjI impI)
  assume "mMapDocument s = None \<or> \<not> mGridVisible s"
  then show "drawForeground rnd docs painter rect s = Some (Inr painter)"
    by (auto simp: drawForeground_def split: option.splits)
next
  show "\<exists>r. drawForeground rnd docs painter rect s = Some r"
    by (rule drawForeground_terminates)
next
  assume a: "mMapDocument s = Some d \<and> mGridVisible s
        \<and> 0 < tileWidth (docMap (docs d)) \<and> 0 < tileHeight (docMap (docs d))
        \<and> drawForeground rnd docs painter rect s = Some (Inr p')"
  let ?m = "docMap (docs d)"
  let ?p0 = "painter\<lparr>pen := Black, opacity := 1 / 2\<rparr>"
  from a have doc: "mMapDocument s = Some d" and vis: "mGridVisible s"
    and tw: "0 < tileWidth ?m" and th: "0 < tileHeight ?m"
    and res: "drawForeground rnd docs painter rect s = Some (Inr p')" by simp_all
  obtain startX startY endX endY where
    g: "gridBounds rnd ?m rect = Inr (startX, startY, endX, endY)"
    using res doc vis by (cases "gridBounds rnd ?m rect") (auto simp: drawForeground_def)
  obtain p1 where
    l1: "forLoop (verticalLine rect endY) (tileWidth ?m) endX startX ?p0 = Some (Inr p1)"
    and l2: "forLoop (horizontalLine rect endX) (tileHeight ?m) endY startY p1 = Some (Inr p')"
    using res doc vis g
    by (auto simp: drawForeground_def Let_def split: option.splits sum.splits)
  note b = gridBounds_Inr [OF g]
  have p1: "p1 = ?p0\<lparr>drawnLines := drawnLines ?p0
                 @ map (\<lambda>x. \<lparr>lineX1 = x, lineY1 = trunc_toward_zero (rectTop rect),
                              lineX2 = x, lineY2 = endY - 1\<rparr>)
                     (loopValues (tileWidth ?m) endX startX)\<rparr>"
    using tw l1 by (rule vertical_loop)
  have p': "p' = p1\<lparr>drawnLines := drawnLines p1
                 @ map (\<lambda>y. \<lparr>lineX1 = trunc_toward_zero (rectLeft rect), lineY1 = y,
                              lineX2 = endX - 1, lineY2 = y\<rparr>)
                     (loopValues (tileHeight ?m) endY startY)\<rparr>"
    using th l2 by (rule horizontal_loop)
  have sx: "set (loopValues (tileWidth ?m) endX startX)
              = {x. startX \<le> x \<and> x < endX \<and> tileWidth ?m dvd x}"
    using tw by (rule loopValues_multiples) (simp add: b(5) gridStart_dvd)
  have sy: "set (loopValues (tileHeight ?m) endY startY)
              = {y. startY \<le> y \<and> y < endY \<and> tileHeight ?m dvd y}"
    using th by (rule loopValues_multiples) (simp add: b(6) gridStart_dvd)
  have e: "endX \<le> trunc_toward_zero (rectRight rnd rect)"
    "endX \<le> mapWidth ?m * tileWidth ?m + 1"
    "endY \<le> trunc_toward_zero (rectBottom rnd rect)"
    "endY \<le> mapHeight ?m * tileHeight ?m + 1"
    by (simp_all add: b(7) b(8) gridEnd_def)
  have final: "p' = painter
                 \<lparr>pen := Black, opacity := 1 / 2,
                  drawnLines := drawnLines painter
                    @ map (\<lambda>x. \<lparr>lineX1 = x, lineY1 = trunc_toward_zero (rectTop rect),
                                  lineX2 = x, lineY2 = endY - 1\<rparr>)
                        (loopValues (tileWidth ?m) endX startX)
                    @ map (\<lambda>y. \<lparr>lineX1 = trunc_toward_zero (rectLeft rect), lineY1 = y,
                                  lineX2 = endX - 1, lineY2 = y\<rparr>)
                        (loopValues (tileHeight ?m) endY startY)\<rparr>"
    by (simp add: p' p1)
  show "(let m = docMap (docs d);
             startX = gridStart rnd (rectX rect) (tileWidth m);
             startY = gridStart rnd (rectY rect) (tileHeight m);
             endX = gridEnd (rectRight rnd rect) (mapWidth m) (tileWidth m);
             endY = gridEnd (rectBottom rnd rect) (mapHeight m) (tileHeight m);
             xs = loopValues (tileWidth m) endX startX;
             ys = loopValues (tileHeight m) endY startY
         in p' = painter
                 \<lparr>pen := Black, opacity := 1 / 2,
                  drawnLines := drawnLines painter
                    @ map (\<lambda>x. \<lparr>lineX1 = x, lineY1 = trunc_toward_zero (rectTop rect),
                                  lineX2 = x, lineY2 = endY - 1\<rparr>) xs
                    @ map (\<lambda>y. \<lparr>lineX1 = trunc_toward_zero (rectLeft rect), lineY1 = y,
                                  lineX2 = endX - 1, lineY2 = y\<rparr>) ys\<rparr>
            \<and> sorted xs \<and> distinct xs \<and> sorted ys \<and> distinct ys
            \<and> set xs = {x. startX \<le> x \<and> x < endX \<and> tileWidth m dvd x}
            \<and> set ys = {y. startY \<le> y \<and> y < endY \<and> tileHeight m dvd y}
            \<and> endX \<le> trunc_toward_zero (rectRight rnd rect)
            \<and> endX \<le> mapWidth m * tileWidth m + 1
            \<and> endY \<le> trunc_toward_zero (rectBottom rnd rect)
            \<and> endY \<le> mapHeight m * tileHeight m + 1)"
    unfolding Let_def
    using final sx sy e loopValues_sorted [of "tileWidth ?m" endX startX]
      loopValues_sorted [of "tileHeight ?m" endY startY]
    unfolding b(5) b(6) b(7) b(8)
    by blast
qed

text \<open>
  C6 as stated fails for an exposed rectangle below the map: for a map of 2 by 2 tiles
  of 32 pixels, whose pixel extent is 65, and the rectangle from (0, 100) to (50, 150),
  two vertical lines are drawn that start at \<open>y = 100\<close>. All the numbers involved are
  doubles and none of the operations rounds.
\<close>

theorem unclamped_line_start_counterexample:
  "mMapDocument sceneWithDoc = Some 0 \<and> mGridVisible sceneWithDoc
   \<and> drawForeground (\<lambda>x. x) docsA blankPainter belowMapRect sceneWithDoc =
       Some (Inr (blankPainter
         \<lparr>pen := Black, opacity := 1 / 2,
          drawnLines := [\<lparr>lineX1 = 0, lineY1 = 100, lineX2 = 0, lineY2 = 64\<rparr>,
                         \<lparr>lineX1 = 32, lineY1 = 100, lineX2 = 32, lineY2 = 64\<rparr>]\<rparr>))
   \<and> mapHeight (docMap (docsA 0)) * tileHeight (docMap (docsA 0)) + 1 = 65"
  by code_simp


theorem drawForeground_grid_witness:
  "mMapDocument sceneWithDoc = Some 0 \<and> mGridVisible sceneWithDoc
   \<and> 0 < tileWidth (docMap (docsA 0)) \<and> 0 < tileHeight (docMap (docsA 0))
   \<and> drawForeground (\<lambda>x. x) docsA blankPainter insideRect sceneWithDoc =
       Some (Inr (blankPainter
         \<lparr>pen := Black, opacity := 1 / 2,
          drawnLines := [\<lparr>lineX1 = 0, lineY1 = 40, lineX2 = 0, lineY2 = 59\<rparr>,
                         \<lparr>lineX1 = 32, lineY1 = 40, lineX2 = 32, lineY2 = 59\<rparr>,
                         \<lparr>lineX1 = 5, lineY1 = 32, lineX2 = 49, lineY2 = 32\<rparr>]\<rparr>))
   \<and> set (loopValues 32 50 0) = {x. 0 \<le> x \<and> x < 50 \<and> 32 dvd x}
   \<and> set (loopValues 32 60 32) = {y. 32 \<le> y \<and> y < 60 \<and> 32 dvd y}"
proof -
  have f: "mMapDocument sceneWithDoc = Some 0 \<and> mGridVisible sceneWithDoc
   \<and> 0 < tileWidth (docMap (docsA 0)) \<and> 0 < tileHeight (docMap (docsA 0))
   \<and> drawForeground (\<lambda>x. x) docsA blankPainter insideRect sceneWithDoc =
       Some (Inr (blankPainter
         \<lparr>pen := Black, opacity := 1 / 2,
          drawnLines := [\<lparr>lineX1 = 0, lineY1 = 40, lineX2 = 0, lineY2 = 59\<rparr>,
                         \<lparr>lineX1 = 32, lineY1 = 40, lineX2 = 32, lineY2 = 59\<rparr>,
                         \<lparr>lineX1 = 5, lineY1 = 32, lineX2 = 49, lineY2 = 32\<rparr>]\<rparr>))"
    by code_simp
  have v: "tileWidth (docMap (docsA 0)) = 32" "tileHeight (docMap (docsA 0)) = 32"
    "gridStart (\<lambda>x. x) (rectX insideRect) 32 = 0"
    "gridStart (\<lambda>x. x) (rectY insideRect) 32 = 32"
    "gridEnd (rectRight (\<lambda>x. x) insideRect) (mapWidth (docMap (docsA 0))) 32 = 50"
    "gridEnd (rectBottom (\<lambda>x. x) insideRect) (mapHeight (docMap (docsA 0))) 32 = 60"
    by (simp_all add: docsA_def exampleMap_def gridStart_def gridEnd_def insideRect_def
          rectRight_def rectBottom_def trunc_toward_zero_def)
  from drawForeground_grid [of sceneWithDoc "\<lambda>x. x" docsA blankPainter insideRect 0
         "blankPainter
         \<lparr>pen := Black, opacity := 1 / 2,
          drawnLines := [\<lparr>lineX1 = 0, lineY1 = 40, lineX2 = 0, lineY2 = 59\<rparr>,
                         \<lparr>lineX1 = 32, lineY1 = 40, lineX2 = 32, lineY2 = 59\<rparr>,
                         \<lparr>lineX1 = 5, lineY1 = 32, lineX2 = 49, lineY2 = 32\<rparr>]\<rparr>"] f
  have "set (loopValues 32 50 0) = {x. 0 \<le> x \<and> x < 50 \<and> 32 dvd x}
      \<and> set (loopValues 32 60 32) = {y. 32 \<le> y \<and> y < 60 \<and> 32 dvd y}"
    unfolding Let_def v by blast
  with f show ?thesis by blast
qed


end
